theory Spec2Isabelle
  imports Main "HOL-Library.AList"
begin

section \<open>Python strings\<close>

text \<open>
  A Python \<^verbatim>\<open>str\<close> is a sequence of Unicode code points, so a string is a list of
  natural numbers here; \<open>str\<close> embeds an ASCII literal.
\<close>

type_synonym pystr = "nat list"

definition str :: "string \<Rightarrow> pystr" where
  "str s = map of_char s"

text \<open>\<^verbatim>\<open>x in s\<close> on two strings is the substring test; \<^verbatim>\<open>s.startswith(p)\<close>
  and \<^verbatim>\<open>s.endswith(p)\<close> are the prefix and suffix tests.\<close>

fun startswith :: "pystr \<Rightarrow> pystr \<Rightarrow> bool" where
  "startswith s [] = True"
| "startswith [] (p # ps) = False"
| "startswith (c # s) (p # ps) = (c = p \<and> startswith s ps)"

fun str_in :: "pystr \<Rightarrow> pystr \<Rightarrow> bool" where
  "str_in x [] = (x = [])"
| "str_in x (c # s) = (startswith (c # s) x \<or> str_in x s)"

definition endswith :: "pystr \<Rightarrow> pystr \<Rightarrow> bool" where
  "endswith s p = startswith (rev s) (rev p)"

definition ascii_uppercase :: pystr where
  "ascii_uppercase = str ''ABCDEFGHIJKLMNOPQRSTUVWXYZ''"

text \<open>
  \<^verbatim>\<open>c.upper()\<close> for a one-character string \<open>c\<close>. Python applies the full Unicode case
  mapping, which may give several characters. The table is exact on ASCII and on every
  code point whose upper-case form consists of ASCII characters (U+00DF, U+0131, U+017F,
  U+FB00 to U+FB06). Every other code point is left as it is: its upper-case form has a
  non-ASCII character, is a digit exactly when the code point is one, and the classifier
  only compares it with strings of ASCII capitals and digits and asks \<^verbatim>\<open>isdigit\<close>.
\<close>

definition str_upper :: "nat \<Rightarrow> pystr" where
  "str_upper c =
     (if 97 \<le> c \<and> c \<le> 122 then [c - 32]
      else if c = 0xDF then str ''SS''
      else if c = 0x131 then str ''I''
      else if c = 0x17F then str ''S''
      else if c = 0xFB00 then str ''FF''
      else if c = 0xFB01 then str ''FI''
      else if c = 0xFB02 then str ''FL''
      else if c = 0xFB03 then str ''FFI''
      else if c = 0xFB04 then str ''FFL''
      else if c = 0xFB05 \<or> c = 0xFB06 then str ''ST''
      else [c])"

text \<open>
  \<^verbatim>\<open>s.isdigit()\<close>: the string is not empty and each character has the Unicode property
  Digit or Decimal. The ranges are those of Unicode 14 (Python 3.11).
\<close>

definition unicode_digit_ranges :: "(nat \<times> nat) list" where
  "unicode_digit_ranges =
     [(48, 57), (178, 179), (185, 185), (1632, 1641), (1776, 1785), (1984, 1993),
      (2406, 2415), (2534, 2543), (2662, 2671), (2790, 2799), (2918, 2927), (3046, 3055),
      (3174, 3183), (3302, 3311), (3430, 3439), (3558, 3567), (3664, 3673), (3792, 3801),
      (3872, 3881), (4160, 4169), (4240, 4249), (4969, 4977), (6112, 6121), (6160, 6169),
      (6470, 6479), (6608, 6618), (6784, 6793), (6800, 6809), (6992, 7001), (7088, 7097),
      (7232, 7241), (7248, 7257), (8304, 8304), (8308, 8313), (8320, 8329), (9312, 9320),
      (9332, 9340), (9352, 9360), (9450, 9450), (9461, 9469), (9471, 9471), (10102, 10110),
      (10112, 10120), (10122, 10130), (42528, 42537), (43216, 43225), (43264, 43273),
      (43472, 43481), (43504, 43513), (43600, 43609), (44016, 44025), (65296, 65305),
      (66720, 66729), (68160, 68163), (68912, 68921), (69216, 69224), (69714, 69722),
      (69734, 69743), (69872, 69881), (69942, 69951), (70096, 70105), (70384, 70393),
      (70736, 70745), (70864, 70873), (71248, 71257), (71360, 71369), (71472, 71481),
      (71904, 71913), (72016, 72025), (72784, 72793), (73040, 73049), (73120, 73129),
      (92768, 92777), (92864, 92873), (93008, 93017), (120782, 120831), (123200, 123209),
      (123632, 123641), (125264, 125273), (127232, 127242), (130032, 130041)]"

definition char_isdigit :: "nat \<Rightarrow> bool" where
  "char_isdigit c = list_ex (\<lambda>(lo, hi). lo \<le> c \<and> c \<le> hi) unicode_digit_ranges"

definition str_isdigit :: "pystr \<Rightarrow> bool" where
  "str_isdigit s = (s \<noteq> [] \<and> list_all char_isdigit s)"

section \<open>Paths\<close>

text \<open>
  Every path the two programs use is built by \<^verbatim>\<open>os.path.join\<close> from a root directory
  given on the command line and the names of directory entries. A path is kept in that
  form, the root string and the names joined to it, so that it also says where in the
  directory tree it points; \<open>path_str\<close> renders it as \<^verbatim>\<open>posixpath.join\<close> does: a
  component that starts with the separator replaces what came before, otherwise it is
  appended, after a separator unless the text so far is empty or ends with one.
\<close>

type_synonym path = "pystr \<times> pystr list"

definition sep :: nat where
  "sep = 47"

definition join2 :: "pystr \<Rightarrow> pystr \<Rightarrow> pystr" where
  "join2 a b =
     (if startswith b [sep] then b
      else if a = [] \<or> endswith a [sep] then a @ b
      else a @ [sep] @ b)"

definition path_str :: "path \<Rightarrow> pystr" where
  "path_str p = foldl join2 (fst p) (snd p)"

definition os_path_join :: "path \<Rightarrow> pystr \<Rightarrow> path" where
  "os_path_join p name = (fst p, snd p @ [name])"

text \<open>\<^verbatim>\<open>os.path.basename\<close> and \<^verbatim>\<open>os.path.dirname\<close> of a path that has at least one name
  joined to its root (entry names hold no separator).\<close>

definition basename :: "path \<Rightarrow> pystr" where
  "basename p = (if snd p = [] then [] else last (snd p))"

definition dirname :: "path \<Rightarrow> path" where
  "dirname p = (fst p, butlast (snd p))"

section \<open>The sharding classifier (organize\_crates.py)\<close>

datatype error = KeyError | IndexError | OSError | AttributeError

text \<open>The third component of a group is a string for the letters (where \<^verbatim>\<open>in\<close> is the
  substring test) and a list of strings for the digits and for OTHER (where \<^verbatim>\<open>in\<close>
  is membership).\<close>

datatype range_chars = Chunk pystr | Items "pystr list"

fun contains :: "pystr \<Rightarrow> range_chars \<Rightarrow> bool" where
  "contains x (Chunk s) = str_in x s"
| "contains x (Items l) = (x \<in> set l)"

type_synonym group = "pystr \<times> pystr \<times> range_chars"

text \<open>\<^verbatim>\<open>range(0, n, step)\<close> and the slice \<^verbatim>\<open>s[i:i+k]\<close>.\<close>

definition range_step :: "nat \<Rightarrow> nat \<Rightarrow> nat list" where
  "range_step n step = map (\<lambda>k. k * step) [0 ..< (n + step - 1) div step]"

definition slice :: "pystr \<Rightarrow> nat \<Rightarrow> nat \<Rightarrow> pystr" where
  "slice s i j = take (j - i) (drop i s)"

definition chunk_size :: nat where
  "chunk_size = 4"

definition letter_group :: "nat \<Rightarrow> pystr \<Rightarrow> group list" where
  "letter_group first_letter chunk =
     (case chunk of
        [] \<Rightarrow> []
      | start # _ \<Rightarrow>
          [([first_letter, start] @ str ''-'' @ [first_letter, last chunk],
            [first_letter], Chunk chunk)])"

definition groups_for :: "nat \<Rightarrow> group list" where
  "groups_for first_letter =
     concat (map (\<lambda>i. letter_group first_letter (slice ascii_uppercase i (i + chunk_size)))
               (range_step (length ascii_uppercase) chunk_size))"

definition number_groups :: "group list" where
  "number_groups =
     [(str ''0-2'', [], Items [str ''0'', str ''1'', str ''2'']),
      (str ''3-5'', [], Items [str ''3'', str ''4'', str ''5'']),
      (str ''6-9'', [], Items [str ''6'', str ''7'', str ''8'', str ''9''])]"

text \<open>The dictionary, as a function from keys to values; the keys the loop assigns are
  the one-letter strings A to Z, then \<^verbatim>\<open>"0-9"\<close> and \<^verbatim>\<open>"OTHER"\<close>.\<close>

definition get_letter_groups :: "pystr \<rightharpoonup> group list" where
  "get_letter_groups =
     (foldl (\<lambda>d first_letter. d([first_letter] \<mapsto> groups_for first_letter))
            Map.empty ascii_uppercase)
       (str ''0-9'' \<mapsto> number_groups, str ''OTHER'' \<mapsto> [(str ''OTHER'', [], Items [])])"

definition dict_get :: "('k \<rightharpoonup> 'v) \<Rightarrow> 'k \<Rightarrow> error + 'v" where
  "dict_get d k = (case d k of None \<Rightarrow> Inl KeyError | Some v \<Rightarrow> Inr v)"

definition first_name :: "group list \<Rightarrow> error + pystr" where
  "first_name gs = (case gs of [] \<Rightarrow> Inl IndexError | (group_name, _, _) # _ \<Rightarrow> Inr group_name)"

text \<open>The one-character strings a range holds: the characters of a chunk, the items of
  a list.\<close>

text \<open>The \<^verbatim>\<open>for\<close> loop that returns at the first group whose range holds the character,
  and the default after it: the name of the first group.\<close>

fun range_members :: "range_chars \<Rightarrow> pystr list" where
  "range_members (Chunk s) = map (\<lambda>c. [c]) s"
| "range_members (Items l) = l"

definition group_members :: "group \<Rightarrow> pystr list" where
  "group_members g = range_members (snd (snd g))"

fun find_group :: "pystr \<Rightarrow> group list \<Rightarrow> pystr option" where
  "find_group x [] = None"
| "find_group x ((group_name, group_prefix, rc) # gs) =
     (if contains x rc then Some group_name else find_group x gs)"

definition get_target_directory :: "pystr \<Rightarrow> pystr \<Rightarrow> error + path" where
  "get_target_directory filename base_dir =
     (case filename of
        [] \<Rightarrow> Inr (base_dir, [str ''OTHER'', str ''OTHER''])
      | c1 # rest \<Rightarrow>
          (let first_char = str_upper c1;
               first_level =
                 (if str_in first_char ascii_uppercase then first_char
                  else if str_isdigit first_char then str ''0-9''
                  else str ''OTHER'');
               letter_groups = get_letter_groups
           in if str_in first_level ascii_uppercase then
                (let second_char = (case rest of c2 # _ \<Rightarrow> str_upper c2 | [] \<Rightarrow> str ''A'')
                 in case dict_get letter_groups first_level of
                      Inl e \<Rightarrow> Inl e
                    | Inr groups \<Rightarrow>
                        (case (if str_in second_char ascii_uppercase
                               then find_group second_char groups else None) of
                           Some group_name \<Rightarrow>
                             Inr (base_dir, [first_level, group_name])
                         | None \<Rightarrow>
                             (case first_name groups of
                                Inl e \<Rightarrow> Inl e
                              | Inr group_name \<Rightarrow>
                                  Inr (base_dir, [first_level, group_name]))))
              else if first_level = str ''0-9'' then
                (case dict_get letter_groups (str ''0-9'') of
                   Inl e \<Rightarrow> Inl e
                 | Inr groups \<Rightarrow>
                     (case find_group first_char groups of
                        Some group_name \<Rightarrow>
                          Inr (base_dir, [str ''0-9'', group_name])
                      | None \<Rightarrow>
                          (case first_name groups of
                             Inl e \<Rightarrow> Inl e
                           | Inr group_name \<Rightarrow>
                               Inr (base_dir, [str ''0-9'', group_name]))))
              else Inr (base_dir, [str ''OTHER'', str ''OTHER''])))"

section \<open>The file system\<close>

text \<open>
  A directory tree: a file entry with what it names, or a directory with its entries in
  the order in which \<^verbatim>\<open>os.listdir\<close> and \<^verbatim>\<open>os.walk\<close> list them. A name is looked up as the
  operating system resolves it, the first entry of that name (a directory never holds a
  name twice). Symbolic links and special files are not modelled.

  The relocator never reads a file, and its trees carry at each file entry the file
  itself (the inode number): two entries with the same number are hard links of one
  file. The indexer's trees carry the content of each file.
\<close>

datatype 'a fsnode = File 'a | Dir "(pystr \<times> 'a fsnode) list"

type_synonym inode = nat

fun lookup :: "pystr list \<Rightarrow> 'a fsnode \<Rightarrow> 'a fsnode option" where
  "lookup [] t = Some t"
| "lookup (n # ns) t =
     (case t of
        File _ \<Rightarrow> None
      | Dir es \<Rightarrow> (case map_of es n of None \<Rightarrow> None | Some c \<Rightarrow> lookup ns c))"

definition os_path_exists :: "path \<Rightarrow> 'a fsnode \<Rightarrow> bool" where
  "os_path_exists p t = (lookup (snd p) t \<noteq> None)"

definition os_path_isfile :: "path \<Rightarrow> 'a fsnode \<Rightarrow> bool" where
  "os_path_isfile p t = (case lookup (snd p) t of Some (File _) \<Rightarrow> True | _ \<Rightarrow> False)"

definition os_path_isdir :: "path \<Rightarrow> 'a fsnode \<Rightarrow> bool" where
  "os_path_isdir p t = (case lookup (snd p) t of Some (Dir _) \<Rightarrow> True | _ \<Rightarrow> False)"

text \<open>\<open>modify ns f t\<close> replaces the entries of the directory at \<open>ns\<close> by \<open>f\<close> of them; it
  is an \<^verbatim>\<open>OSError\<close> when there is no directory at \<open>ns\<close>.\<close>

fun modify :: "pystr list \<Rightarrow> ((pystr \<times> 'a fsnode) list \<Rightarrow> error + (pystr \<times> 'a fsnode) list)
    \<Rightarrow> 'a fsnode \<Rightarrow> error + 'a fsnode" where
  "modify [] f t =
     (case t of
        File _ \<Rightarrow> Inl OSError
      | Dir es \<Rightarrow> (case f es of Inl e \<Rightarrow> Inl e | Inr es' \<Rightarrow> Inr (Dir es')))"
| "modify (n # ns) f t =
     (case t of
        File _ \<Rightarrow> Inl OSError
      | Dir es \<Rightarrow>
          (case map_of es n of
             None \<Rightarrow> Inl OSError
           | Some c \<Rightarrow>
               (case modify ns f c of
                  Inl e \<Rightarrow> Inl e
                | Inr c' \<Rightarrow> Inr (Dir (AList.update n c' es)))))"

text \<open>\<^verbatim>\<open>os.listdir\<close>, and \<^verbatim>\<open>os.walk\<close> top-down: the triple of a directory, then the walks
  of its subdirectories in listing order. A top that is not a directory yields nothing
  (the scan error is ignored).\<close>

definition os_listdir :: "path \<Rightarrow> 'a fsnode \<Rightarrow> error + pystr list" where
  "os_listdir p t =
     (case lookup (snd p) t of Some (Dir es) \<Rightarrow> Inr (map fst es) | _ \<Rightarrow> Inl OSError)"

fun is_file :: "'a fsnode \<Rightarrow> bool" where
  "is_file (File _) = True"
| "is_file (Dir _) = False"

fun os_walk :: "path \<Rightarrow> 'a fsnode \<Rightarrow> (path \<times> pystr list \<times> pystr list) list"
  and walk_entries :: "path \<Rightarrow> (pystr \<times> 'a fsnode) list \<Rightarrow> (path \<times> pystr list \<times> pystr list) list"
where
  "os_walk p (File a) = []"
| "os_walk p (Dir es) =
     (p, map fst (filter (\<lambda>e. \<not> is_file (snd e)) es), map fst (filter (\<lambda>e. is_file (snd e)) es))
       # walk_entries p es"
| "walk_entries p [] = []"
| "walk_entries p (e # es) = os_walk (os_path_join p (fst e)) (snd e) @ walk_entries p es"

text \<open>What the operating system may refuse for reasons outside the tree (permissions,
  locks, a full disk) is a parameter: \<open>permits p\<close> says whether a call that creates,
  moves or writes \<open>p\<close> is carried out.\<close>

text \<open>\<^verbatim>\<open>os.makedirs(p)\<close> where the parent of \<open>p\<close> exists and \<open>p\<close> does not, the only way
  the provisioner calls it: the directory is added to its parent, which must be a
  directory.\<close>

definition os_makedirs :: "(path \<Rightarrow> bool) \<Rightarrow> path \<Rightarrow> 'a fsnode \<Rightarrow> error + 'a fsnode" where
  "os_makedirs permits p t =
     (if \<not> permits p then Inl OSError
      else modify (snd (dirname p)) (\<lambda>es. Inr (es @ [(basename p, Dir [])])) t)"

text \<open>\<^verbatim>\<open>os.path.samefile\<close>: both paths exist and name the same file (the same inode), or
  the same directory.\<close>

definition same_file :: "path \<Rightarrow> path \<Rightarrow> inode fsnode \<Rightarrow> bool" where
  "same_file src dst t =
     (case lookup (snd src) t of
        None \<Rightarrow> False
      | Some (File i) \<Rightarrow> lookup (snd dst) t = Some (File i)
      | Some (Dir es) \<Rightarrow> snd src = snd dst)"

text \<open>
  \<^verbatim>\<open>os.rename(src, dst)\<close>, as \<^verbatim>\<open>shutil.move\<close> calls it (the destination is not a
  directory). When the two paths name the same file, which is so when they are hard
  links of it, the call does nothing and succeeds, and the source entry stays.
  Otherwise the entry of the destination is set to the source, replacing a file that
  is there, and the source entry is removed; the parent of the destination must be a
  directory.
\<close>

definition rename :: "path \<Rightarrow> path \<Rightarrow> inode fsnode \<Rightarrow> error + inode fsnode" where
  "rename src dst t =
     (case lookup (snd src) t of
        None \<Rightarrow> Inl OSError
      | Some node \<Rightarrow>
          if same_file src dst t then Inr t
          else
            (case modify (snd (dirname dst)) (\<lambda>es. Inr (AList.update (basename dst) node es)) t of
               Inl e \<Rightarrow> Inl e
             | Inr t' \<Rightarrow> modify (snd (dirname src)) (\<lambda>es. Inr (AList.delete (basename src) es)) t'))"

text \<open>
  \<^verbatim>\<open>shutil.move(src, dst)\<close>. If \<open>dst\<close> is a directory, the source goes inside it under
  its own name, unless that exists already (\<^verbatim>\<open>shutil.Error\<close>), and a \<open>dst\<close> that is
  the source itself is renamed to itself; otherwise the source is renamed to \<open>dst\<close>.
\<close>

definition shutil_move ::
  "(path \<Rightarrow> bool) \<Rightarrow> path \<Rightarrow> path \<Rightarrow> inode fsnode \<Rightarrow> error + inode fsnode" where
  "shutil_move permits src dst t =
     (if \<not> permits src then Inl OSError
      else if os_path_isdir dst t then
        (if same_file src dst t then rename src dst t
         else
           (let real_dst = os_path_join dst (basename src)
            in if os_path_exists real_dst t then Inl OSError else rename src real_dst t))
      else rename src dst t)"

section \<open>The directory provisioner and the file relocator (organize\_crates.py)\<close>

definition first_levels :: "pystr list" where
  "first_levels = map (\<lambda>c. [c]) ascii_uppercase @ [str ''0-9'', str ''OTHER'']"

text \<open>A loop whose body may raise: the first error ends it.\<close>

fun for_each :: "('x \<Rightarrow> 's \<Rightarrow> error + 's) \<Rightarrow> 'x list \<Rightarrow> 's \<Rightarrow> error + 's" where
  "for_each body [] s = Inr s"
| "for_each body (x # xs) s =
     (case body x s of Inl e \<Rightarrow> Inl e | Inr s' \<Rightarrow> for_each body xs s')"

definition ensure_dir :: "(path \<Rightarrow> bool) \<Rightarrow> path \<Rightarrow> 'a fsnode \<Rightarrow> error + 'a fsnode" where
  "ensure_dir permits p t = (if \<not> os_path_exists p t then os_makedirs permits p t else Inr t)"

definition create_directories :: "(path \<Rightarrow> bool) \<Rightarrow> pystr \<Rightarrow> 'a fsnode \<Rightarrow> error + 'a fsnode" where
  "create_directories permits base_dir t =
     for_each
       (\<lambda>first_level t.
          let first_dir = os_path_join (base_dir, []) first_level
          in case ensure_dir permits first_dir t of
               Inl e \<Rightarrow> Inl e
             | Inr t' \<Rightarrow>
                 (case dict_get get_letter_groups first_level of
                    Inl e \<Rightarrow> Inl e
                  | Inr groups \<Rightarrow>
                      for_each (\<lambda>g. ensure_dir permits (os_path_join first_dir (fst g))) groups t'))
       first_levels t"

text \<open>\<open>move_file\<close> catches every exception of the move and answers \<open>False\<close>; the tree
  is then as it was.\<close>

definition move_file ::
  "(path \<Rightarrow> bool) \<Rightarrow> path \<times> path \<Rightarrow> inode fsnode \<Rightarrow> bool \<times> inode fsnode" where
  "move_file permits args t =
     (let file_path = fst args; target_dir = snd args;
          filename = basename file_path;
          target_path = os_path_join target_dir filename
      in case shutil_move permits file_path target_path t of
           Inr t' \<Rightarrow> (True, t')
         | Inl e \<Rightarrow> (False, t))"

text \<open>The moves run on a thread pool; their results come back in the order of the
  arguments, and the moves are modelled one after the other in that order.\<close>

fun move_all ::
  "(path \<Rightarrow> bool) \<Rightarrow> (path \<times> path) list \<Rightarrow> inode fsnode \<Rightarrow> bool list \<times> inode fsnode" where
  "move_all permits [] t = ([], t)"
| "move_all permits (a # as) t =
     (let r = move_file permits a t; rs = move_all permits as (snd r)
      in (fst r # fst rs, snd rs))"

fun move_arguments :: "pystr \<Rightarrow> pystr list \<Rightarrow> error + (path \<times> path) list" where
  "move_arguments source_dir [] = Inr []"
| "move_arguments source_dir (filename # files) =
     (case get_target_directory filename source_dir of
        Inl e \<Rightarrow> Inl e
      | Inr target_dir \<Rightarrow>
          (case move_arguments source_dir files of
             Inl e \<Rightarrow> Inl e
           | Inr rest \<Rightarrow> Inr ((os_path_join (source_dir, []) filename, target_dir) # rest)))"

text \<open>
  \<open>organize_files\<close> on the tree \<open>t\<close> of \<open>source_dir\<close>: the result pair and the tree
  afterwards, or the exception that ends the run. The dry run only logs its per-bucket
  counts, which are left out, and returns a success count of zero.
\<close>

definition list_files :: "pystr \<Rightarrow> 'a fsnode \<Rightarrow> error + pystr list" where
  "list_files source_dir t =
     (case os_listdir (source_dir, []) t of
        Inl e \<Rightarrow> Inl e
      | Inr names \<Rightarrow>
          Inr (filter (\<lambda>f. os_path_isfile (os_path_join (source_dir, []) f) t) names))"

definition organize_files ::
  "(path \<Rightarrow> bool) \<Rightarrow> pystr \<Rightarrow> bool \<Rightarrow> inode fsnode
     \<Rightarrow> error + ((nat \<times> nat) \<times> inode fsnode)" where
  "organize_files permits source_dir dry_run t =
     (case list_files source_dir t of
        Inl e \<Rightarrow> Inl e
      | Inr files \<Rightarrow>
          (let total_files = length files
           in case (if \<not> dry_run then create_directories permits source_dir t else Inr t) of
                Inl e \<Rightarrow> Inl e
              | Inr t1 \<Rightarrow>
                  (case move_arguments source_dir files of
                     Inl e \<Rightarrow> Inl e
                   | Inr move_args \<Rightarrow>
                       if \<not> dry_run then
                         (let r = move_all permits move_args t1
                          in Inr ((length (filter id (fst r)), total_files), snd r))
                       else Inr ((0, total_files), t1))))"

section \<open>The metadata indexer (organize\_metadata.py)\<close>

subsection \<open>Lines and JSON values\<close>

text \<open>\<^verbatim>\<open>s.strip()\<close> removes the characters for which \<^verbatim>\<open>isspace\<close> holds from both ends.\<close>

definition is_space :: "nat \<Rightarrow> bool" where
  "is_space c \<longleftrightarrow>
     9 \<le> c \<and> c \<le> 13 \<or> 28 \<le> c \<and> c \<le> 32 \<or> c = 0x85 \<or> c = 0xA0 \<or> c = 0x1680 \<or>
     0x2000 \<le> c \<and> c \<le> 0x200A \<or> c = 0x2028 \<or> c = 0x2029 \<or> c = 0x202F \<or> c = 0x205F \<or>
     c = 0x3000"

definition strip :: "pystr \<Rightarrow> pystr" where
  "strip s = rev (dropWhile is_space (rev (dropWhile is_space s)))"

text \<open>
  The values \<^verbatim>\<open>json.loads\<close> returns. A float is kept as mantissa and binary exponent (or
  infinity, or not-a-number), which is all its truth value needs; an object is the
  dictionary built from it, as an association list.
\<close>

datatype pyfloat = Finite int int | Infinity bool | NaN

datatype json =
    JNull | JBool bool | JInt int | JFloat pyfloat | JStr pystr
  | JArr "json list" | JObj "(pystr \<times> json) list"

text \<open>\<^verbatim>\<open>not version\<close> is the negation of the truth value.\<close>

fun truthy :: "json \<Rightarrow> bool" where
  "truthy JNull = False"
| "truthy (JBool b) = b"
| "truthy (JInt i) = (i \<noteq> 0)"
| "truthy (JFloat (Finite m e)) = (m \<noteq> 0)"
| "truthy (JFloat (Infinity s)) = True"
| "truthy (JFloat NaN) = True"
| "truthy (JStr s) = (s \<noteq> [])"
| "truthy (JArr xs) = (xs \<noteq> [])"
| "truthy (JObj kvs) = (kvs \<noteq> [])"

text \<open>\<^verbatim>\<open>metadata.get('vers')\<close>: \<^verbatim>\<open>None\<close> (the value of JSON's null) when the key is
  missing; a value that is no dictionary has no \<^verbatim>\<open>get\<close>.\<close>

definition get_vers :: "json \<Rightarrow> error + json" where
  "get_vers metadata =
     (case metadata of
        JObj kvs \<Rightarrow> Inr (case map_of kvs (str ''vers'') of None \<Rightarrow> JNull | Some v \<Rightarrow> v)
      | _ \<Rightarrow> Inl AttributeError)"

text \<open>
  What the run takes from outside the two trees: the parser \<^verbatim>\<open>json.loads\<close> (\<open>None\<close> when
  it raises \<^verbatim>\<open>JSONDecodeError\<close>), Python's \<^verbatim>\<open>str()\<close> of a parsed value that is not a
  string (an f-string formats a string as itself), and what the operating system permits.
\<close>

record runtime =
  json_loads :: "pystr \<Rightarrow> json option"
  py_str :: "json \<Rightarrow> pystr"
  os_permits :: "path \<Rightarrow> bool"

definition format_value :: "runtime \<Rightarrow> json \<Rightarrow> pystr" where
  "format_value env v = (case v of JStr s \<Rightarrow> s | _ \<Rightarrow> py_str env v)"

subsection \<open>The two trees\<close>

text \<open>
  A file of the index holds its lines, as \<^verbatim>\<open>readlines\<close> returns them, or cannot be read
  (\<open>None\<close>: opening or decoding it raises). A file of the mirror is an archive or
  anything else whose content the indexer never reads (\<open>Blob\<close>), or holds what
  \<^verbatim>\<open>json.dump(metadata, f, indent=i)\<close> wrote.
\<close>

type_synonym index_file = "pystr list option"

datatype mirror_file = Blob | JsonDump json nat

text \<open>What a run logs, and the sidecar files it writes, in order.\<close>

datatype event =
    ParseError path pystr
  | ProcessingError pystr error
  | NotFound pystr pystr
  | FileError path
  | Written path

subsection \<open>find\_crate\_file\<close>

fun first_match :: "pystr \<Rightarrow> (path \<times> pystr list \<times> pystr list) list \<Rightarrow> path option" where
  "first_match expected_filename [] = None"
| "first_match expected_filename ((root, dirs, files) # rest) =
     (if expected_filename \<in> set files then Some (os_path_join root expected_filename)
      else first_match expected_filename rest)"

definition find_crate_file ::
  "runtime \<Rightarrow> pystr \<Rightarrow> json \<Rightarrow> pystr \<Rightarrow> mirror_file fsnode \<Rightarrow> path option" where
  "find_crate_file env crate_name version mirror_dir mirror =
     (let expected_filename = crate_name @ str ''-'' @ format_value env version @ str ''.crate''
      in first_match expected_filename (os_walk (mirror_dir, []) mirror))"

subsection \<open>process\_metadata\_file\<close>

text \<open>Opening the sidecar for writing and dumping the record into it: refused by the
  operating system, or impossible because a directory has that name, or done, which
  creates the file or replaces its content.\<close>

definition write_json ::
  "runtime \<Rightarrow> path \<Rightarrow> json \<Rightarrow> nat \<Rightarrow> mirror_file fsnode \<Rightarrow> error + mirror_file fsnode" where
  "write_json env p metadata indent t =
     (if \<not> os_permits env p then Inl OSError
      else if os_path_isdir p t then Inl OSError
      else modify (snd (dirname p))
             (\<lambda>es. Inr (AList.update (basename p) (File (JsonDump metadata indent)) es)) t)"

record progress =
  success_count :: nat
  total_count :: nat
  tree :: "mirror_file fsnode"
  events :: "event list"

text \<open>The body of the loop over the lines, with the two \<^verbatim>\<open>except\<close> clauses of the inner
  \<^verbatim>\<open>try\<close>: a line that does not parse, and any other exception (the record is no
  dictionary, the sidecar cannot be written). A failed write leaves the tree as it was.\<close>

definition process_line ::
  "runtime \<Rightarrow> path \<Rightarrow> pystr \<Rightarrow> pystr \<Rightarrow> bool \<Rightarrow> pystr \<Rightarrow> progress \<Rightarrow> progress" where
  "process_line env metadata_file crate_name mirror_dir dry_run line st =
     (if strip line = [] then st
      else if \<not> (startswith (strip line) (str ''{'') \<and> endswith (strip line) (str ''}'')) then st
      else case json_loads env line of
        None \<Rightarrow> st\<lparr>events := events st @ [ParseError metadata_file line]\<rparr>
      | Some metadata \<Rightarrow>
          (case get_vers metadata of
             Inl e \<Rightarrow> st\<lparr>events := events st @ [ProcessingError crate_name e]\<rparr>
           | Inr version \<Rightarrow>
               if \<not> truthy version then st
               else
                 (let st1 = st\<lparr>total_count := total_count st + 1\<rparr>
                  in case find_crate_file env crate_name version mirror_dir (tree st) of
                       None \<Rightarrow>
                         st1\<lparr>events := events st @ [NotFound crate_name (format_value env version)]\<rparr>
                     | Some crate_file_path \<Rightarrow>
                         (let crate_dir = dirname crate_file_path;
                              metadata_output_path =
                                os_path_join crate_dir
                                  (crate_name @ str ''-'' @ format_value env version
                                     @ str ''.metadata.json'')
                          in if \<not> dry_run then
                               (case write_json env metadata_output_path metadata 2 (tree st) of
                                  Inl e \<Rightarrow> st1\<lparr>events := events st @ [ProcessingError crate_name e]\<rparr>
                                | Inr mirror' \<Rightarrow>
                                    st1\<lparr>success_count := success_count st + 1,
                                        tree := mirror',
                                        events := events st @ [Written metadata_output_path]\<rparr>)
                             else st1\<lparr>success_count := success_count st + 1\<rparr>))))"

definition process_lines ::
  "runtime \<Rightarrow> path \<Rightarrow> pystr \<Rightarrow> pystr \<Rightarrow> bool \<Rightarrow> pystr list \<Rightarrow> progress \<Rightarrow> progress" where
  "process_lines env metadata_file crate_name mirror_dir dry_run lines st =
     foldl (\<lambda>st line. process_line env metadata_file crate_name mirror_dir dry_run line st)
       st lines"

text \<open>
  One metadata file: the pair of counts it returns, with the mirror tree and the log
  afterwards. The counts start at zero for each file; an exception outside the loop
  (the file cannot be read) is logged and gives \<open>(0, 0)\<close>.
\<close>

definition process_metadata_file ::
  "runtime \<Rightarrow> index_file fsnode \<Rightarrow> path \<times> pystr \<times> bool \<Rightarrow> mirror_file fsnode \<times> event list
     \<Rightarrow> (nat \<times> nat) \<times> mirror_file fsnode \<times> event list" where
  "process_metadata_file env index args ml =
     (let metadata_file = fst args; mirror_dir = fst (snd args); dry_run = snd (snd args)
      in if basename metadata_file \<in> set [str ''.git'', str ''config.json''] then ((0, 0), ml)
         else if os_path_isdir metadata_file index then ((0, 0), ml)
         else
           (let crate_name = basename metadata_file
            in case lookup (snd metadata_file) index of
                 Some (File (Some lines)) \<Rightarrow>
                   (let st = process_lines env metadata_file crate_name mirror_dir dry_run lines
                               \<lparr>success_count = 0, total_count = 0,
                                tree = fst ml, events = snd ml\<rparr>
                    in ((success_count st, total_count st), tree st, events st))
               | _ \<Rightarrow> ((0, 0), fst ml, snd ml @ [FileError metadata_file])))"

subsection \<open>organize\_metadata\<close>

definition skip_dirs :: "pystr list" where
  "skip_dirs =
     [str ''.git'', str ''.venv'', str ''site-packages'', str ''pip'', str ''python'',
      str ''__pycache__'']"

definition skip_suffixes :: "pystr list" where
  "skip_suffixes =
     [str ''.py'', str ''.pyc'', str ''.pyd'', str ''.dll'', str ''.exe'', str ''.bat'',
      str ''.sh'', str ''.md'', str ''.txt'', str ''.html'']"

text \<open>The walk of the index that collects the metadata files.\<close>

fun collect :: "(path \<times> pystr list \<times> pystr list) list \<Rightarrow> path list" where
  "collect [] = []"
| "collect ((root, dirs, files) # rest) =
     (if list_ex (\<lambda>d. str_in d (path_str root)) skip_dirs then collect rest
      else map (os_path_join root)
             (filter (\<lambda>file. file \<noteq> str ''config.json''
                        \<and> \<not> list_ex (\<lambda>suffix. endswith file suffix) skip_suffixes) files)
           @ collect rest)"

definition metadata_files :: "pystr \<Rightarrow> index_file fsnode \<Rightarrow> path list" where
  "metadata_files index_dir index = collect (os_walk (index_dir, []) index)"

text \<open>The files are handed to a thread pool; the results come back in the order of the
  files, and the files are modelled one after the other in that order.\<close>

fun process_all ::
  "runtime \<Rightarrow> index_file fsnode \<Rightarrow> pystr \<Rightarrow> bool \<Rightarrow> path list \<Rightarrow> mirror_file fsnode \<times> event list
     \<Rightarrow> (nat \<times> nat) list \<times> mirror_file fsnode \<times> event list" where
  "process_all env index mirror_dir dry_run [] ml = ([], ml)"
| "process_all env index mirror_dir dry_run (file # files) ml =
     (let r = process_metadata_file env index (file, mirror_dir, dry_run) ml;
          rs = process_all env index mirror_dir dry_run files (snd r)
      in (fst r # fst rs, snd rs))"

definition organize_metadata ::
  "runtime \<Rightarrow> pystr \<Rightarrow> index_file fsnode \<Rightarrow> pystr \<Rightarrow> mirror_file fsnode \<Rightarrow> bool
     \<Rightarrow> (nat \<times> nat) \<times> mirror_file fsnode \<times> event list" where
  "organize_metadata env index_dir index mirror_dir mirror_tree dry_run =
     (let files = metadata_files index_dir index;
          rs = process_all env index mirror_dir dry_run files (mirror_tree, [])
      in ((sum_list (map fst (fst rs)), sum_list (map snd (fst rs))), snd rs))"

text \<open>The provisioner's postcondition, for the proofs: every second-level directory of
  the partition table exists.\<close>

definition provisioned :: "'a fsnode \<Rightarrow> bool" where
  "provisioned t =
     (\<forall>first \<in> set first_levels. \<forall>groups. get_letter_groups first = Some groups \<longrightarrow>
        (\<forall>g \<in> set groups. lookup [first, fst g] t \<noteq> None))"

text \<open>The tree the provisioner leaves in an empty directory, followed by further
  entries; used in examples.\<close>

definition bucket_tree :: "(pystr \<times> 'a fsnode) list \<Rightarrow> 'a fsnode" where
  "bucket_tree extra =
     Dir (map (\<lambda>first. (first, Dir (map (\<lambda>g. (fst g, Dir []))
                 (case get_letter_groups first of None \<Rightarrow> [] | Some groups \<Rightarrow> groups))))
            first_levels @ extra)"

text \<open>For the proofs: two states of the loop over the lines that agree on the counts and
  on the tree, and on the events that \<open>P\<close> selects.\<close>

definition alike :: "(event \<Rightarrow> bool) \<Rightarrow> progress \<Rightarrow> progress \<Rightarrow> bool" where
  "alike P a b \<longleftrightarrow>
     success_count a = success_count b \<and> total_count a = total_count b \<and> tree a = tree b
     \<and> filter P (events a) = filter P (events b)"

text \<open>What the indexer can see at a path of the index: nothing, a directory (\<open>Some None\<close>)
  or a file with its content.\<close>

definition read_at :: "pystr list \<Rightarrow> 'a fsnode \<Rightarrow> 'a option option" where
  "read_at q t = map_option (\<lambda>n. case n of File c \<Rightarrow> Some c | Dir _ \<Rightarrow> None) (lookup q t)"

subsection \<open>Example trees\<close>

text \<open>An index with one package file (a malformed line, a record and an empty line), a
  \<^verbatim>\<open>config.json\<close> and a file below a directory named \<^verbatim>\<open>pipeline\<close>; a mirror that holds the
  archive of the record twice; a parser that knows the one record.\<close>

definition example_record :: json where
  "example_record = JObj [(str ''name'', JStr (str ''foo'')), (str ''vers'', JStr (str ''1.0.0''))]"

definition example_line :: pystr where
  \<open>example_line = str ''{"name": "foo", "vers": "1.0.0"}'' @ [10]\<close>

definition example_bad_line :: pystr where
  \<open>example_bad_line = str ''{"name": "foo", "vers": }'' @ [10]\<close>

definition example_runtime :: runtime where
  "example_runtime =
     \<lparr>json_loads = (\<lambda>s. if s = example_line then Some example_record else None),
      py_str = (\<lambda>v. []), os_permits = (\<lambda>p. True)\<rparr>"

definition example_index :: "index_file fsnode" where
  "example_index =
     Dir [(str ''config.json'', File (Some [])),
          (str ''3'', Dir [(str ''f'', Dir [(str ''foo'',
              File (Some [example_bad_line, example_line, [10]]))])]),
          (str ''pipeline'', Dir [(str ''bar'', File (Some [example_line]))])]"

definition example_index_clean :: "index_file fsnode" where
  "example_index_clean =
     Dir [(str ''config.json'', File (Some [])),
          (str ''3'', Dir [(str ''f'', Dir [(str ''foo'',
              File (Some [example_line, [10]]))])]),
          (str ''pipeline'', Dir [(str ''bar'', File (Some [example_line]))])]"

definition example_mirror :: "mirror_file fsnode" where
  "example_mirror =
     Dir [(str ''F'', Dir [(str ''FM-FP'', Dir [(str ''foo-1.0.0.crate'', File Blob)])]),
          (str ''dup'', Dir [(str ''foo-1.0.0.crate'', File Blob)])]"

definition example_mirror_written :: "mirror_file fsnode" where
  "example_mirror_written =
     Dir [(str ''F'', Dir [(str ''FM-FP'',
             Dir [(str ''foo-1.0.0.crate'', File Blob),
                  (str ''foo-1.0.0.metadata.json'', File (JsonDump example_record 2))])]),
          (str ''dup'', Dir [(str ''foo-1.0.0.crate'', File Blob)])]"

text \<open>For the proofs: two walks that visit the same directories and agree on whether a
  name is among the files of each.\<close>

definition walk_agree ::
  "pystr \<Rightarrow> (path \<times> pystr list \<times> pystr list) list \<Rightarrow> (path \<times> pystr list \<times> pystr list) list \<Rightarrow> bool" where
  "walk_agree x ts ts' =
     list_all2 (\<lambda>a b. fst a = fst b \<and> (x \<in> set (snd (snd a)) \<longleftrightarrow> x \<in> set (snd (snd b)))) ts ts'"

text \<open>For the proofs: two mirror trees in which every archive name is found at the same
  path.\<close>

definition same_crates :: "pystr \<Rightarrow> mirror_file fsnode \<Rightarrow> mirror_file fsnode \<Rightarrow> bool" where
  "same_crates mirror_dir t t' \<longleftrightarrow>
     (\<forall>x. endswith x (str ''.crate'') \<longrightarrow>
        first_match x (os_walk (mirror_dir, []) t) = first_match x (os_walk (mirror_dir, []) t'))"

text \<open>The records of a run whose sidecar could not be written: the events in which the
  inner \<^verbatim>\<open>except Exception\<close> logged an \<^verbatim>\<open>OSError\<close>.\<close>

fun is_write_failure :: "event \<Rightarrow> bool" where
  "is_write_failure (ProcessingError name e) = (e = OSError)"
| "is_write_failure _ = False"

definition write_failures :: "event list \<Rightarrow> nat" where
  "write_failures es = length (filter is_write_failure es)"

text \<open>For the proofs: how the state of a simulation and of a normal run on the same lines
  are related, \<open>k\<close> being the failed writes logged before the file began.\<close>

definition sim_rel :: "pystr \<Rightarrow> nat \<Rightarrow> progress \<Rightarrow> progress \<Rightarrow> bool" where
  "sim_rel mirror_dir k a b \<longleftrightarrow>
     total_count a = total_count b
     \<and> success_count a + k = success_count b + write_failures (events b)
     \<and> same_crates mirror_dir (tree a) (tree b)"

text \<open>The example runtime on a mirror that cannot be written to.\<close>

definition example_readonly :: runtime where
  "example_readonly = example_runtime\<lparr>os_permits := (\<lambda>p. False)\<rparr>"

text \<open>For the proofs: an invariant of the mirror tree and the log that logging keeps and
  that every sidecar write keeps.\<close>

definition stable :: "runtime \<Rightarrow> pystr \<Rightarrow> (mirror_file fsnode \<times> event list \<Rightarrow> bool) \<Rightarrow> bool" where
  "stable env mirror_dir Q \<longleftrightarrow>
     (\<forall>t es new. Q (t, es) \<longrightarrow> (\<forall>p. Written p \<notin> set new) \<longrightarrow> Q (t, es @ new))
     \<and> (\<forall>t es ns name m t'. Q (t, es) \<longrightarrow>
           write_json env (mirror_dir, ns @ [name @ str ''.metadata.json'']) m 2 t = Inr t' \<longrightarrow>
           Q (t', es @ [Written (mirror_dir, ns @ [name @ str ''.metadata.json''])]))"

text \<open>For the proofs: two states of a non-simulated run, with the same log, whose trees
  find every archive at the same path and have the same directories.\<close>

definition twin ::
  "pystr \<Rightarrow> mirror_file fsnode \<times> event list \<Rightarrow> mirror_file fsnode \<times> event list \<Rightarrow> bool" where
  "twin mirror_dir ml ml' \<longleftrightarrow>
     snd ml = snd ml' \<and> same_crates mirror_dir (fst ml) (fst ml')
     \<and> (\<forall>q. os_path_isdir q (fst ml) \<longleftrightarrow> os_path_isdir q (fst ml'))"

text \<open>The example mirror with a sidecar left by an earlier state of the index.\<close>

definition example_mirror_stale :: "mirror_file fsnode" where
  "example_mirror_stale =
     Dir [(str ''F'', Dir [(str ''FM-FP'',
             Dir [(str ''foo-1.0.0.crate'', File Blob),
                  (str ''foo-1.0.0.metadata.json'', File (JsonDump (JObj []) 2))])]),
          (str ''dup'', Dir [(str ''foo-1.0.0.crate'', File Blob)])]"

text \<open>A top-level file whose destination path, the bucket of its name followed by the
  name, holds a hard link of it: for such a file the move does nothing and succeeds.\<close>

definition linked_to_target :: "pystr \<Rightarrow> inode fsnode \<Rightarrow> pystr \<Rightarrow> bool" where
  "linked_to_target source_dir t filename =
     (case get_target_directory filename source_dir of
        Inl e \<Rightarrow> False
      | Inr target_dir \<Rightarrow>
          same_file (os_path_join (source_dir, []) filename) (os_path_join target_dir filename) t)"

text \<open>A provisioned tree with one top-level file, of which the bucket of its name holds a
  hard link under the same name.\<close>

definition example_linked :: "inode fsnode" where
  "example_linked =
     Dir (map (\<lambda>first. (first, Dir (map (\<lambda>g. (fst g,
                 Dir (if fst g = str ''SE-SH'' then [(str ''serde-1.0.0.crate'', File 7)] else [])))
                 (case get_letter_groups first of None \<Rightarrow> [] | Some groups \<Rightarrow> groups))))
            first_levels @ [(str ''serde-1.0.0.crate'', File 7)])"

section \<open>Properties of the sharding classifier\<close>

lemma ascii_uppercase_eq:
  "ascii_uppercase = [65 ..< 91]"
  by (simp add: ascii_uppercase_def str_def)

lemma length_ascii_uppercase: "length ascii_uppercase = 26"
  by (simp add: ascii_uppercase_eq)

lemma range_step_26: "range_step 26 4 = [0, 4, 8, 12, 16, 20, 24]"
  by (simp add: range_step_def upt_rec)

lemma groups_for_eq:
  "groups_for L =
     [([L, 65, 45, L, 68], [L], Chunk [65, 66, 67, 68]),
      ([L, 69, 45, L, 72], [L], Chunk [69, 70, 71, 72]),
      ([L, 73, 45, L, 76], [L], Chunk [73, 74, 75, 76]),
      ([L, 77, 45, L, 80], [L], Chunk [77, 78, 79, 80]),
      ([L, 81, 45, L, 84], [L], Chunk [81, 82, 83, 84]),
      ([L, 85, 45, L, 88], [L], Chunk [85, 86, 87, 88]),
      ([L, 89, 45, L, 90], [L], Chunk [89, 90])]"
  unfolding groups_for_def length_ascii_uppercase chunk_size_def range_step_26
  by (simp add: ascii_uppercase_eq slice_def letter_group_def str_def)

lemma foldl_upd_lookup:
  "foldl (\<lambda>d c. d([c] \<mapsto> f c)) m xs [L] = (if L \<in> set xs then Some (f L) else m [L])"
  by (induction xs rule: rev_induct) auto

lemma foldl_upd_other:
  "length k \<noteq> 1 \<Longrightarrow> foldl (\<lambda>d c. d([c] \<mapsto> f c)) m xs k = m k"
  by (induction xs rule: rev_induct) auto

lemma get_letter_groups_letter:
  "L \<in> set ascii_uppercase \<Longrightarrow> get_letter_groups [L] = Some (groups_for L)"
  by (simp add: get_letter_groups_def foldl_upd_lookup str_def)

lemma get_letter_groups_digits:
  "get_letter_groups (str ''0-9'') = Some number_groups"
  by (simp add: get_letter_groups_def str_def)

lemma startswith_single: "startswith s [c] \<longleftrightarrow> (s \<noteq> [] \<and> hd s = c)"
  by (cases s) auto

lemma str_in_single: "str_in [c] s \<longleftrightarrow> c \<in> set s"
  by (induction s) auto

lemma contains_single: "contains [c] rc \<longleftrightarrow> [c] \<in> set (range_members rc)"
  by (cases rc) (auto simp: str_in_single)

lemma partition_ex1:
  assumes "distinct (concat (map f gs))" and "x \<in> set (concat (map f gs))"
  shows "\<exists>!g. g \<in> set gs \<and> x \<in> set (f g)"
  using assms
proof (induction gs)
  case Nil
  then show ?case by simp
next
  case (Cons g gs)
  show ?case
  proof (cases "x \<in> set (f g)")
    case True
    with Cons.prems(1) have "\<forall>h \<in> set gs. x \<notin> set (f h)" by auto
    with True show ?thesis by auto
  next
    case False
    with Cons.prems have "\<exists>!h. h \<in> set gs \<and> x \<in> set (f h)"
      by (intro Cons.IH) auto
    with False show ?thesis by auto
  qed
qed

lemma letter_members:
  "concat (map group_members (groups_for L)) = map (\<lambda>c. [c]) ascii_uppercase"
  by (simp add: groups_for_eq ascii_uppercase_eq group_members_def)

lemma digit_members:
  "concat (map group_members number_groups) = map (\<lambda>c. [c]) (str ''0123456789'')"
  by (simp add: number_groups_def group_members_def str_def)

lemma distinct_singletons: "distinct (map (\<lambda>c. [c]) xs) = distinct xs"
  by (simp add: distinct_map inj_on_def)

lemma distinct_ascii_uppercase: "distinct ascii_uppercase"
  by (simp add: ascii_uppercase_eq)

lemma letter_unique_group:
  assumes "c \<in> set ascii_uppercase"
  shows "\<exists>!g. g \<in> set (groups_for L) \<and> contains [c] (snd (snd g))"
proof -
  have "distinct (concat (map group_members (groups_for L)))"
    by (simp only: letter_members distinct_singletons distinct_ascii_uppercase)
  moreover have "[c] \<in> set (concat (map group_members (groups_for L)))"
    using assms by (simp only: letter_members) simp
  ultimately have "\<exists>!g. g \<in> set (groups_for L) \<and> [c] \<in> set (group_members g)"
    by (rule partition_ex1)
  then show ?thesis by (simp only: contains_single group_members_def)
qed

lemma digit_unique_group:
  assumes "d \<in> set (str ''0123456789'')"
  shows "\<exists>!g. g \<in> set number_groups \<and> contains [d] (snd (snd g))"
proof -
  have "distinct (concat (map group_members number_groups))"
    by (simp only: digit_members distinct_singletons) (simp add: str_def)
  moreover have "[d] \<in> set (concat (map group_members number_groups))"
    using assms by (simp only: digit_members) simp
  ultimately have "\<exists>!g. g \<in> set number_groups \<and> [d] \<in> set (group_members g)"
    by (rule partition_ex1)
  then show ?thesis by (simp only: contains_single group_members_def)
qed

text \<open>
  Claim C2. For every first-level letter the ranges of its groups, in order, are exactly
  the letters A to Z, and each letter lies in exactly one range; the three digit bands
  are exactly the digits 0 to 9, each digit in exactly one band.
\<close>

theorem partition_table_complete:
  "(\<forall>L \<in> set ascii_uppercase. \<exists>gs. get_letter_groups [L] = Some gs
       \<and> concat (map group_members gs) = map (\<lambda>c. [c]) ascii_uppercase
       \<and> (\<forall>c \<in> set ascii_uppercase. \<exists>!g. g \<in> set gs \<and> contains [c] (snd (snd g))))
   \<and> (\<exists>gs. get_letter_groups (str ''0-9'') = Some gs
       \<and> concat (map group_members gs) = map (\<lambda>c. [c]) (str ''0123456789'')
       \<and> (\<forall>d \<in> set (str ''0123456789''). \<exists>!g. g \<in> set gs \<and> contains [d] (snd (snd g))))
   \<and> distinct ascii_uppercase \<and> distinct (str ''0123456789'')"
proof (intro conjI ballI)
  fix L assume "L \<in> set ascii_uppercase"
  then have "get_letter_groups [L] = Some (groups_for L)"
    by (rule get_letter_groups_letter)
  then show "\<exists>gs. get_letter_groups [L] = Some gs
       \<and> concat (map group_members gs) = map (\<lambda>c. [c]) ascii_uppercase
       \<and> (\<forall>c \<in> set ascii_uppercase. \<exists>!g. g \<in> set gs \<and> contains [c] (snd (snd g)))"
    using letter_members letter_unique_group by blast
next
  show "\<exists>gs. get_letter_groups (str ''0-9'') = Some gs
       \<and> concat (map group_members gs) = map (\<lambda>c. [c]) (str ''0123456789'')
       \<and> (\<forall>d \<in> set (str ''0123456789''). \<exists>!g. g \<in> set gs \<and> contains [d] (snd (snd g)))"
    using get_letter_groups_digits digit_members digit_unique_group by blast
next
  show "distinct ascii_uppercase" by (rule distinct_ascii_uppercase)
next
  show "distinct (str ''0123456789'')" by (simp add: str_def)
qed

theorem partition_table_complete_witness:
  "\<exists>gs. get_letter_groups (str ''Q'') = Some gs
     \<and> (\<exists>!g. g \<in> set gs \<and> contains (str ''K'') (snd (snd g)))"
proof -
  have Q: "(81::nat) \<in> set ascii_uppercase" and K: "(75::nat) \<in> set ascii_uppercase"
    by (simp_all add: ascii_uppercase_eq)
  from partition_table_complete Q obtain gs where
    "get_letter_groups [81] = Some gs"
    "\<forall>c \<in> set ascii_uppercase. \<exists>!g. g \<in> set gs \<and> contains [c] (snd (snd g))"
    by blast
  with K show ?thesis by (auto simp: str_def)
qed

lemma get_letter_groups_digits_num:
  "get_letter_groups [48, 45, 57] = Some number_groups"
  using get_letter_groups_digits by (simp add: str_def)

text \<open>
  Claim C3. The three example inputs: \<^verbatim>\<open>7z-1.0.tar\<close> goes to 0-9/6-9, \<^verbatim>\<open>Abc.bin\<close> to
  A/AA-AD and \<^verbatim>\<open>zyx\<close> to Z/ZY-ZZ, the chunk of Z that holds Y, under any base directory;
  the last conjunct shows the rendered text of one of the paths.
\<close>

theorem classify_examples:
  "get_target_directory (str ''7z-1.0.tar'') base_dir
      = Inr (base_dir, [str ''0-9'', str ''6-9''])
   \<and> get_target_directory (str ''Abc.bin'') base_dir
      = Inr (base_dir, [str ''A'', str ''AA-AD''])
   \<and> get_target_directory (str ''zyx'') base_dir
      = Inr (base_dir, [str ''Z'', str ''ZY-ZZ''])
   \<and> contains (str ''Y'') (Chunk (str ''YZ''))
   \<and> (str ''ZY-ZZ'', str ''Z'', Chunk (str ''YZ'')) \<in> set (groups_for 90)
   \<and> path_str ([], [str ''Z'', str ''ZY-ZZ'']) = str ''Z/ZY-ZZ''"
  by (simp add: get_target_directory_def str_upper_def str_def ascii_uppercase_eq
      dict_get_def get_letter_groups_letter get_letter_groups_digits_num groups_for_eq
      number_groups_def str_isdigit_def char_isdigit_def unicode_digit_ranges_def
      path_str_def join2_def sep_def endswith_def Let_def)

text \<open>
  Claim C1. The classifier is meant to return a bucket path for every file name. It does
  not: the upper-case form of U+FB06 (and of U+FB05) is the two-character string
  \<^verbatim>\<open>ST\<close>, which is a substring of \<^verbatim>\<open>string.ascii_uppercase\<close>, so the first level becomes
  \<^verbatim>\<open>"ST"\<close>, a key the group table does not have, and the lookup raises KeyError.
\<close>

theorem classify_ligature_KeyError:
  "get_target_directory (0xFB06 # rest) base_dir = Inl KeyError"
  by (simp add: get_target_directory_def str_upper_def str_def ascii_uppercase_eq
      dict_get_def get_letter_groups_def foldl_upd_other)

lemma classify_empty:
  "get_target_directory [] base_dir = Inr (base_dir, [str ''OTHER'', str ''OTHER''])"
  by (simp add: get_target_directory_def)

lemma str_upper_nonempty: "str_upper c \<noteq> []"
  by (simp add: str_upper_def str_def)

lemma startswith_iff: "startswith s x \<longleftrightarrow> (\<exists>q. s = x @ q)"
  by (induction s x rule: startswith.induct) auto

lemma str_in_iff: "str_in x s \<longleftrightarrow> (\<exists>p q. s = p @ x @ q)"
proof (induction s)
  case Nil
  then show ?case by simp
next
  case (Cons c s)
  show ?case
  proof
    assume "str_in x (c # s)"
    then consider "startswith (c # s) x" | "str_in x s" by auto
    then show "\<exists>p q. c # s = p @ x @ q"
    proof cases
      case 1
      then obtain q where "c # s = x @ q" by (auto simp: startswith_iff)
      then have "c # s = [] @ x @ q" by simp
      then show ?thesis by blast
    next
      case 2
      with Cons.IH obtain p q where "s = p @ x @ q" by blast
      then have "c # s = (c # p) @ x @ q" by simp
      then show ?thesis by blast
    qed
  next
    assume "\<exists>p q. c # s = p @ x @ q"
    then obtain p q where pq: "c # s = p @ x @ q" by blast
    show "str_in x (c # s)"
    proof (cases p)
      case Nil
      with pq have "startswith (c # s) x" by (auto simp: startswith_iff)
      then show ?thesis by simp
    next
      case (Cons a p')
      with pq have "s = p' @ x @ q" by simp
      with Cons.IH have "str_in x s" by blast
      then show ?thesis by simp
    qed
  qed
qed

lemma str_in_hd: "str_in x s \<Longrightarrow> x \<noteq> [] \<Longrightarrow> hd x \<in> set s"
  by (auto simp: str_in_iff)

lemma str_in_mono: "str_in x s \<Longrightarrow> str_in x (a @ s @ b)"
proof -
  assume "str_in x s"
  then obtain p q where "s = p @ x @ q" by (auto simp: str_in_iff)
  then have "a @ s @ b = (a @ p) @ x @ (q @ b)" by simp
  then show ?thesis unfolding str_in_iff by blast
qed

lemma group_is_slice:
  assumes "g \<in> set (groups_for L)"
  shows "\<exists>i. snd (snd g) = Chunk (slice ascii_uppercase i (i + chunk_size))"
  using assms by (auto simp: groups_for_def letter_group_def split: list.splits)

lemma slice_decomp: "\<exists>a b. s = a @ slice s i j @ b"
proof -
  have "s = take i s @ drop i s"
    by (simp only: append_take_drop_id)
  also have "drop i s = take (j - i) (drop i s) @ drop (j - i) (drop i s)"
    by (simp only: append_take_drop_id)
  finally have "s = take i s @ take (j - i) (drop i s) @ drop (j - i) (drop i s)" .
  then show ?thesis unfolding slice_def by blast
qed

lemma chunk_in_alphabet:
  assumes "g \<in> set (groups_for L)" and "contains x (snd (snd g))"
  shows "str_in x ascii_uppercase"
proof -
  from assms(1) obtain i where g: "snd (snd g) = Chunk (slice ascii_uppercase i (i + chunk_size))"
    using group_is_slice by blast
  obtain a b where "ascii_uppercase = a @ slice ascii_uppercase i (i + chunk_size) @ b"
    using slice_decomp by blast
  moreover from assms(2) g have "str_in x (slice ascii_uppercase i (i + chunk_size))" by simp
  ultimately show ?thesis using str_in_mono by metis
qed

lemma find_group_None:
  "(\<forall>g \<in> set gs. \<not> contains x (snd (snd g))) \<Longrightarrow> find_group x gs = None"
  by (induction gs) auto

lemma find_group_first:
  "\<not> contains x (snd (snd g)) \<Longrightarrow> find_group x (g # gs) = find_group x gs"
  "contains x (snd (snd g)) \<Longrightarrow> find_group x (g # gs) = Some (fst g)"
  by (cases g; simp)+

lemma contains_chunk_hd: "contains x (Chunk s) \<Longrightarrow> x \<noteq> [] \<Longrightarrow> hd x \<in> set s"
  by (simp add: str_in_hd)

lemma find_group_disjoint:
  assumes "x \<noteq> []"
    and "distinct (concat (map group_members gs))"
    and "\<forall>g \<in> set gs. \<exists>s. snd (snd g) = Chunk s"
    and "g \<in> set gs" and "contains x (snd (snd g))"
  shows "find_group x gs = Some (fst g)"
  using assms(2-5)
proof (induction gs)
  case Nil
  then show ?case by simp
next
  case (Cons h gs)
  have mem: "[hd x] \<in> set (group_members k)"
    if "k \<in> set (h # gs)" and "contains x (snd (snd k))" for k
  proof -
    from that(1) Cons.prems(2) obtain s where s: "snd (snd k) = Chunk s" by blast
    with that(2) assms(1) have "hd x \<in> set s" by (simp add: str_in_hd)
    with s show ?thesis by (simp add: group_members_def)
  qed
  show ?case
  proof (cases "contains x (snd (snd h))")
    case True
    have "g = h"
    proof (rule ccontr)
      assume "g \<noteq> h"
      with Cons.prems(3) have "g \<in> set gs" by simp
      with mem[of g] Cons.prems(4) have "[hd x] \<in> set (concat (map group_members gs))"
        by auto
      moreover from mem[of h] True have "[hd x] \<in> set (group_members h)" by simp
      ultimately show False using Cons.prems(1) by auto
    qed
    with True show ?thesis by (simp add: find_group_first)
  next
    case False
    with Cons.prems(3,4) have "g \<in> set gs" by auto
    with Cons.prems have "find_group x gs = Some (fst g)"
      by (intro Cons.IH) auto
    with False show ?thesis by (simp add: find_group_first)
  qed
qed

lemma find_group_unique:
  assumes "x \<noteq> []" and "g \<in> set (groups_for L)" and "contains x (snd (snd g))"
  shows "find_group x (groups_for L) = Some (fst g)"
proof (rule find_group_disjoint[OF assms(1) _ _ assms(2,3)])
  show "distinct (concat (map group_members (groups_for L)))"
    by (simp only: letter_members distinct_singletons distinct_ascii_uppercase)
  show "\<forall>g \<in> set (groups_for L). \<exists>s. snd (snd g) = Chunk s"
    using group_is_slice by blast
qed

lemma first_name_groups_for:
  "first_name (groups_for L) = Inr ([L, 65] @ str ''-'' @ [L, 68])"
  by (simp add: groups_for_eq first_name_def str_def)

lemma classify_letter:
  assumes "str_upper c1 = [L]" and "L \<in> set ascii_uppercase"
  shows "get_target_directory (c1 # rest) base_dir =
     (let second_char = (case rest of c2 # _ \<Rightarrow> str_upper c2 | [] \<Rightarrow> str ''A'') in
      case (if str_in second_char ascii_uppercase
            then find_group second_char (groups_for L) else None) of
        Some group_name \<Rightarrow> Inr ((base_dir, [[L], group_name]))
      | None \<Rightarrow> Inr ((base_dir, [[L], [L, 65] @ str ''-'' @ [L, 68]])))"
  using assms
  by (simp add: get_target_directory_def str_in_single dict_get_def get_letter_groups_letter
      first_name_groups_for Let_def del: str_in.simps split: option.split)

text \<open>
  Claim C4. For a file name whose upper-cased first character is a letter \<open>L\<close>: a name of
  length one goes to the first chunk L/LA-LD (the default second character A); with a
  second character, the chunk whose range contains its upper-case form is chosen, and
  for a letter there is exactly one such chunk; if the upper-case form is not within
  A to Z, or no chunk contains it, the result is the first chunk L/LA-LD.
\<close>

theorem classify_second_level:
  assumes "str_upper c1 = [L]" and "L \<in> set ascii_uppercase"
  shows "get_target_directory [c1] base_dir
           = Inr ((base_dir, [[L], [L] @ str ''A-'' @ [L] @ str ''D'']))
     \<and> (\<forall>g. g \<in> set (groups_for L) \<and> contains (str_upper c2) (snd (snd g)) \<longrightarrow>
          get_target_directory (c1 # c2 # rest) base_dir
            = Inr ((base_dir, [[L], fst g])))
     \<and> (\<forall>M. str_upper c2 = [M] \<and> M \<in> set ascii_uppercase \<longrightarrow>
          (\<exists>!g. g \<in> set (groups_for L) \<and> contains (str_upper c2) (snd (snd g))))
     \<and> (\<not> str_in (str_upper c2) ascii_uppercase
          \<or> (\<forall>g \<in> set (groups_for L). \<not> contains (str_upper c2) (snd (snd g))) \<longrightarrow>
          get_target_directory (c1 # c2 # rest) base_dir
            = Inr ((base_dir, [[L], [L] @ str ''A-'' @ [L] @ str ''D''])))"
proof (intro conjI allI impI)
  have "find_group (str ''A'') (groups_for L) = Some ([L, 65] @ str ''-'' @ [L, 68])"
    by (simp add: groups_for_eq str_def)
  then show "get_target_directory [c1] base_dir
           = Inr ((base_dir, [[L], [L] @ str ''A-'' @ [L] @ str ''D'']))"
    by (simp add: classify_letter[OF assms] str_def ascii_uppercase_eq)
next
  fix g assume g: "g \<in> set (groups_for L) \<and> contains (str_upper c2) (snd (snd g))"
  then have "str_in (str_upper c2) ascii_uppercase"
    using chunk_in_alphabet by blast
  moreover from g have "find_group (str_upper c2) (groups_for L) = Some (fst g)"
    using find_group_unique str_upper_nonempty by blast
  ultimately show "get_target_directory (c1 # c2 # rest) base_dir
            = Inr ((base_dir, [[L], fst g]))"
    by (simp add: classify_letter[OF assms])
next
  fix M assume "str_upper c2 = [M] \<and> M \<in> set ascii_uppercase"
  then show "\<exists>!g. g \<in> set (groups_for L) \<and> contains (str_upper c2) (snd (snd g))"
    using letter_unique_group by simp
next
  assume "\<not> str_in (str_upper c2) ascii_uppercase
          \<or> (\<forall>g \<in> set (groups_for L). \<not> contains (str_upper c2) (snd (snd g)))"
  then have "(if str_in (str_upper c2) ascii_uppercase
            then find_group (str_upper c2) (groups_for L) else None) = None"
    using find_group_None by auto
  then show "get_target_directory (c1 # c2 # rest) base_dir
            = Inr ((base_dir, [[L], [L] @ str ''A-'' @ [L] @ str ''D'']))"
    by (simp add: classify_letter[OF assms] str_def)
qed

theorem classify_second_level_witness:
  "get_target_directory (str ''x'') (str ''/mirror'') = Inr (str ''/mirror'', [str ''X'', str ''XA-XD''])
   \<and> get_target_directory (str ''xml-rs'') (str ''/mirror'') = Inr (str ''/mirror'', [str ''X'', str ''XM-XP''])
   \<and> get_target_directory (str ''x11'') (str ''/mirror'') = Inr (str ''/mirror'', [str ''X'', str ''XA-XD''])"
proof -
  have u: "str_upper 120 = [88]" and l: "(88::nat) \<in> set ascii_uppercase"
    by (simp_all add: str_upper_def ascii_uppercase_eq)
  have g: "(str ''XM-XP'', str ''X'', Chunk (str ''MNOP'')) \<in> set (groups_for 88)
      \<and> contains (str_upper 109) (snd (snd (str ''XM-XP'', str ''X'', Chunk (str ''MNOP''))))"
    by (simp add: groups_for_eq str_def str_upper_def)
  have n: "\<not> str_in (str_upper 49) ascii_uppercase"
    by (simp add: str_upper_def ascii_uppercase_eq)
  from classify_second_level[OF u l, of "str ''/mirror''" 109 "str ''l-rs''"] g
  have "get_target_directory (120 # 109 # str ''l-rs'') (str ''/mirror'')
          = Inr (str ''/mirror'', [[88], str ''XM-XP''])"
    by (metis fst_conv)
  moreover from classify_second_level[OF u l, of "str ''/mirror''" 49 "str ''1''"] n
  have "get_target_directory (120 # 49 # str ''1'') (str ''/mirror'')
          = Inr (str ''/mirror'', [[88], [88] @ str ''A-'' @ [88] @ str ''D''])"
    by blast
  moreover from classify_second_level[OF u l, of "str ''/mirror''"]
  have "get_target_directory [120] (str ''/mirror'')
          = Inr (str ''/mirror'', [[88], [88] @ str ''A-'' @ [88] @ str ''D''])"
    by blast
  ultimately show ?thesis by (simp add: str_def)
qed

section \<open>Properties of the file relocator\<close>

lemma for_each_invariant:
  assumes "for_each body xs s = Inr s'" and "P s"
    and "\<And>x s s'. x \<in> set xs \<Longrightarrow> P s \<Longrightarrow> body x s = Inr s' \<Longrightarrow> P s'"
  shows "P s'"
  using assms
proof (induction xs arbitrary: s)
  case Nil
  then show ?case by simp
next
  case (Cons x xs)
  from Cons.prems(1) obtain s1 where b: "body x s = Inr s1" and r: "for_each body xs s1 = Inr s'"
    by (auto split: sum.splits)
  from Cons.prems(2) b have "P s1" by (rule Cons.prems(3)[of x s s1, OF list.set_intros(1)])
  show ?case
  proof (rule Cons.IH[OF r \<open>P s1\<close>])
    fix y u u' assume "y \<in> set xs" "P u" "body y u = Inr u'"
    then show "P u'" using Cons.prems(3)[of y u u'] by simp
  qed
qed

lemma for_each_establishes:
  assumes "for_each body xs s = Inr s'"
    and "\<And>x s s'. x \<in> set xs \<Longrightarrow> body x s = Inr s' \<Longrightarrow> Q x s'"
    and "\<And>x y s s'. y \<in> set xs \<Longrightarrow> Q x s \<Longrightarrow> body y s = Inr s' \<Longrightarrow> Q x s'"
  shows "\<forall>x \<in> set xs. Q x s'"
  using assms
proof (induction xs arbitrary: s)
  case Nil
  then show ?case by simp
next
  case (Cons x xs)
  from Cons.prems(1) obtain s1 where b: "body x s = Inr s1" and r: "for_each body xs s1 = Inr s'"
    by (auto split: sum.splits)
  have "Q x s1" using Cons.prems(2)[of x s s1] b by simp
  have "Q x s'"
  proof (rule for_each_invariant[where P="Q x", OF r \<open>Q x s1\<close>])
    fix y u u' assume "y \<in> set xs" "Q x u" "body y u = Inr u'"
    then show "Q x u'" using Cons.prems(3)[of y x u u'] by simp
  qed
  moreover have "\<forall>y \<in> set xs. Q y s'"
  proof (rule Cons.IH[OF r])
    fix y u u' assume "y \<in> set xs" "body y u = Inr u'"
    then show "Q y u'" using Cons.prems(2)[of y u u'] by simp
  next
    fix z y u u' assume "y \<in> set xs" "Q z u" "body y u = Inr u'"
    then show "Q z u'" using Cons.prems(3)[of y z u u'] by simp
  qed
  ultimately show ?case by simp
qed

lemma for_each_id:
  "(\<And>x. x \<in> set xs \<Longrightarrow> body x s = Inr s) \<Longrightarrow> for_each body xs s = Inr s"
  by (induction xs) auto

lemma modify_Dir:
  "modify ns f t = Inr t' \<Longrightarrow> \<exists>es es'. t = Dir es \<and> t' = Dir es'"
  by (cases ns) (auto split: fsnode.splits option.splits sum.splits)

lemma modify_Cons:
  assumes "modify (a # ns) f (Dir es) = Inr t'"
  shows "\<exists>c c'. map_of es a = Some (Dir c) \<and> modify ns f (Dir c) = Inr (Dir c')
            \<and> t' = Dir (AList.update a (Dir c') es)"
proof -
  from assms obtain c c1 where c: "map_of es a = Some c" and m: "modify ns f c = Inr c1"
    and t': "t' = Dir (AList.update a c1 es)"
    by (auto split: option.splits sum.splits)
  from modify_Dir[OF m] obtain x y where "c = Dir x" "c1 = Dir y" by blast
  with c m t' show ?thesis by blast
qed

lemma list_files_Dir:
  "list_files b (Dir es) =
     Inr (filter (\<lambda>f. case map_of es f of Some (File _) \<Rightarrow> True | _ \<Rightarrow> False) (map fst es))"
  by (auto simp: list_files_def os_listdir_def os_path_isfile_def os_path_join_def
      intro!: filter_cong split: option.splits)

lemma list_files_root: "list_files b t = Inr fs \<Longrightarrow> \<exists>es. t = Dir es"
  by (cases t) (auto simp: list_files_def os_listdir_def)

lemma update_keys_present:
  "map_of es a = Some v \<Longrightarrow> map fst (AList.update a w es) = map fst es"
  by (induction es) (auto split: if_splits)

lemma list_files_update_dir:
  assumes "map_of es a = Some (Dir c)"
  shows "list_files b (Dir (AList.update a (Dir c') es)) = list_files b (Dir es)"
proof -
  have "(case map_of (AList.update a (Dir c') es) f of Some (File _) \<Rightarrow> True | _ \<Rightarrow> False)
      = (case map_of es f of Some (File _) \<Rightarrow> True | _ \<Rightarrow> False)" for f
    using assms by (simp add: update_conv')
  then show ?thesis
    by (simp add: list_files_Dir update_keys_present[OF assms])
qed

lemma map_of_append_new:
  "map_of es a = None \<Longrightarrow> map_of (es @ [(a, v)]) k = (if k = a then Some v else map_of es k)"
  by (induction es) auto

lemma list_files_append_dir:
  assumes "map_of es a = None"
  shows "list_files b (Dir (es @ [(a, Dir [])])) = list_files b (Dir es)"
  using assms by (auto simp: list_files_Dir map_of_append_new intro!: filter_cong split: option.splits)

lemma list_files_delete:
  "list_files b (Dir (AList.delete f es)) =
     Inr (removeAll f (filter (\<lambda>f. case map_of es f of Some (File _) \<Rightarrow> True | _ \<Rightarrow> False) (map fst es)))"
proof -
  have "filter P (removeAll f xs) = removeAll f (filter Q xs)"
    if "\<And>x. x \<noteq> f \<Longrightarrow> P x = Q x" for P Q and xs :: "pystr list"
    using that by (induction xs) auto
  then show ?thesis
    by (simp add: list_files_Dir delete_keys)
qed

lemma modify_below_list_files:
  assumes "modify (a # ns) f t = Inr t'"
  shows "list_files b t' = list_files b t"
proof -
  from modify_Dir[OF assms] obtain es where t: "t = Dir es" by blast
  from modify_Cons[OF assms[unfolded t]] obtain c c' where
    "map_of es a = Some (Dir c)" "t' = Dir (AList.update a (Dir c') es)" by blast
  with t show ?thesis by (simp add: list_files_update_dir)
qed

lemma ensure_dir_list_files:
  assumes "ensure_dir permits (b', n # ns) t = Inr t'"
  shows "list_files b t' = list_files b t"
proof (cases "os_path_exists (b', n # ns) t")
  case True
  with assms show ?thesis by (simp add: ensure_dir_def)
next
  case False
  with assms have m: "modify (butlast (n # ns)) (\<lambda>es. Inr (es @ [(last (n # ns), Dir [])])) t = Inr t'"
    by (simp add: ensure_dir_def os_makedirs_def dirname_def basename_def split: if_splits)
  show ?thesis
  proof (cases ns)
    case Nil
    with m obtain es where t: "t = Dir es" and t': "t' = Dir (es @ [(n, Dir [])])"
      by (auto split: fsnode.splits)
    from False t Nil have "map_of es n = None"
      by (auto simp: os_path_exists_def split: option.splits)
    with t t' show ?thesis by (simp add: list_files_append_dir)
  next
    case (Cons k ks)
    with m show ?thesis using modify_below_list_files[of n "butlast (k # ks)"] by simp
  qed
qed

lemma create_directories_list_files:
  assumes "create_directories permits base_dir t = Inr t'"
  shows "list_files b t' = list_files b t"
proof (rule for_each_invariant[where P="\<lambda>u. list_files b u = list_files b t",
        OF assms[unfolded create_directories_def]])
  show "list_files b t = list_files b t" by simp
next
  fix first_level u u'
  assume P: "list_files b u = list_files b t"
    and body: "(let first_dir = os_path_join (base_dir, []) first_level
          in case ensure_dir permits first_dir u of
               Inl e \<Rightarrow> Inl e
             | Inr t' \<Rightarrow>
                 (case dict_get get_letter_groups first_level of
                    Inl e \<Rightarrow> Inl e
                  | Inr groups \<Rightarrow>
                      for_each (\<lambda>g. ensure_dir permits (os_path_join first_dir (fst g))) groups t')) = Inr u'"
  from body have "\<exists>u1 (groups :: group list). ensure_dir permits (base_dir, [first_level]) u = Inr u1
      \<and> for_each (\<lambda>g. ensure_dir permits (base_dir, [first_level, fst g])) groups u1 = Inr u'"
    by (auto simp: Let_def os_path_join_def split: sum.splits)
  then obtain u1 and groups :: "group list" where
    e1: "ensure_dir permits (base_dir, [first_level]) u = Inr u1"
    and inner: "for_each (\<lambda>g. ensure_dir permits (base_dir, [first_level, fst g])) groups u1 = Inr u'"
    by blast
  from e1 P have P1: "list_files b u1 = list_files b t"
    using ensure_dir_list_files by metis
  show "list_files b u' = list_files b t"
  proof (rule for_each_invariant[where P="\<lambda>u. list_files b u = list_files b t", OF inner P1])
    fix g v v'
    assume "list_files b v = list_files b t"
      and "ensure_dir permits (base_dir, [first_level, fst g]) v = Inr v'"
    then show "list_files b v' = list_files b t"
      using ensure_dir_list_files by metis
  qed
qed

lemma target_shape:
  "get_target_directory filename base_dir = Inr p \<Longrightarrow> \<exists>x y. p = (base_dir, [x, y])"
  by (auto simp: get_target_directory_def Let_def split: list.splits sum.splits option.splits if_splits)

lemma move_arguments_shape:
  "move_arguments source_dir files = Inr args \<Longrightarrow>
     length args = length files \<and>
     (\<forall>a \<in> set args. \<exists>f x y. f \<in> set files \<and> a = ((source_dir, [f]), (source_dir, [x, y]))) \<and>
     map (basename \<circ> fst) args = files"
proof (induction files arbitrary: args)
  case Nil
  then show ?case by simp
next
  case (Cons f files)
  from Cons.prems obtain d rest where d: "get_target_directory f source_dir = Inr d"
    and r: "move_arguments source_dir files = Inr rest"
    and a: "args = ((source_dir, [f]), d) # rest"
    by (auto simp: os_path_join_def split: sum.splits)
  from target_shape[OF d] obtain x y where "d = (source_dir, [x, y])" by blast
  with Cons.IH[OF r] a show ?case by (auto simp: basename_def)
qed

lemma rename_cases:
  assumes "rename (b, [f]) (b', x # k # ks) t = Inr t'"
  obtains (linked) "same_file (b, [f]) (b', x # k # ks) t" "t' = t"
  | (moved) node t1 where "\<not> same_file (b, [f]) (b', x # k # ks) t" "lookup [f] t = Some node"
      "modify (x # butlast (k # ks)) (\<lambda>es. Inr (AList.update (last (k # ks)) node es)) t = Inr t1"
      "modify [] (\<lambda>es. Inr (AList.delete f es)) t1 = Inr t'"
proof (cases "same_file (b, [f]) (b', x # k # ks) t")
  case True
  with assms have "t' = t" by (auto simp: rename_def split: option.splits)
  with True show thesis by (rule linked)
next
  case False
  with assms obtain node t1 where "lookup [f] t = Some node"
    "modify (x # butlast (k # ks)) (\<lambda>es. Inr (AList.update (last (k # ks)) node es)) t = Inr t1"
    "modify [] (\<lambda>es. Inr (AList.delete f es)) t1 = Inr t'"
    by (auto simp: rename_def dirname_def basename_def split: option.splits sum.splits)
  with False show thesis by (rule moved)
qed

lemma move_all_length: "length (fst (move_all permits args t)) = length args"
  by (induction args arbitrary: t) (auto simp: Let_def)

lemma filter_id_all: "length (filter id rs) = length rs \<Longrightarrow> \<forall>r \<in> set rs. r"
proof (rule ccontr)
  assume l: "length (filter id rs) = length rs" and "\<not> (\<forall>r \<in> set rs. r)"
  then obtain x where "x \<in> set rs" "\<not> id x" by auto
  then have "length (filter id rs) < length rs" by (rule length_filter_less)
  with l show False by simp
qed

lemma modify_append_lookup:
  "modify ns (\<lambda>es. Inr (es @ [(n, Dir [])])) t = Inr t' \<Longrightarrow> lookup q t \<noteq> None \<Longrightarrow> lookup q t' \<noteq> None"
proof (induction ns arbitrary: t t' q)
  case Nil
  then obtain es where t: "t = Dir es" and t': "t' = Dir (es @ [(n, Dir [])])"
    by (auto split: fsnode.splits)
  show ?case
  proof (cases q)
    case Nil
    then show ?thesis by simp
  next
    case (Cons k ks)
    with Nil.prems(2) t obtain c where "map_of es k = Some c" "lookup ks c \<noteq> None"
      by (auto split: option.splits)
    then show ?thesis using t' Cons by (simp add: map_add_Some_iff)
  qed
next
  case (Cons a ns)
  from modify_Dir[OF Cons.prems(1)] obtain es where t: "t = Dir es" by blast
  from modify_Cons[OF Cons.prems(1)[unfolded t]] obtain c c' where
    c: "map_of es a = Some (Dir c)"
    and m: "modify ns (\<lambda>es. Inr (es @ [(n, Dir [])])) (Dir c) = Inr (Dir c')"
    and t': "t' = Dir (AList.update a (Dir c') es)" by blast
  show ?case
  proof (cases q)
    case Nil
    then show ?thesis by simp
  next
    case q: (Cons k ks)
    show ?thesis
    proof (cases "k = a")
      case True
      with Cons.prems(2) t q c have "lookup ks (Dir c) \<noteq> None" by simp
      from Cons.IH[OF m this] show ?thesis using t' q True by (simp add: update_conv')
    next
      case False
      with Cons.prems(2) t q show ?thesis using t' by (simp add: update_conv')
    qed
  qed
qed

lemma modify_append_creates:
  "modify ns (\<lambda>es. Inr (es @ [(n, Dir [])])) t = Inr t' \<Longrightarrow> lookup (ns @ [n]) t' \<noteq> None"
proof (induction ns arbitrary: t t')
  case Nil
  then obtain es where "t' = Dir (es @ [(n, Dir [])])"
    by (auto split: fsnode.splits)
  then show ?case by (cases "map_of es n") (auto simp: map_add_Some_iff split: option.splits)
next
  case (Cons a ns)
  from modify_Dir[OF Cons.prems(1)] obtain es where t: "t = Dir es" by blast
  from modify_Cons[OF Cons.prems(1)[unfolded t]] obtain c c' where
    m: "modify ns (\<lambda>es. Inr (es @ [(n, Dir [])])) (Dir c) = Inr (Dir c')"
    and t': "t' = Dir (AList.update a (Dir c') es)" by blast
  from Cons.IH[OF m] show ?case using t' by (simp add: update_conv')
qed

lemma ensure_dir_lookup:
  assumes "ensure_dir permits (b, n # ns) t = Inr t'"
  shows "lookup (n # ns) t' \<noteq> None" and "lookup q t \<noteq> None \<Longrightarrow> lookup q t' \<noteq> None"
proof -
  show "lookup (n # ns) t' \<noteq> None"
  proof (cases "os_path_exists (b, n # ns) t")
    case True
    with assms have "t' = t" by (simp add: ensure_dir_def)
    with True show ?thesis by (simp add: os_path_exists_def del: lookup.simps)
  next
    case False
    with assms have "modify (butlast (n # ns)) (\<lambda>es. Inr (es @ [(last (n # ns), Dir [])])) t = Inr t'"
      by (simp add: ensure_dir_def os_makedirs_def dirname_def basename_def split: if_splits)
    from modify_append_creates[OF this]
    have "lookup (butlast (n # ns) @ [last (n # ns)]) t' \<noteq> None" .
    then show ?thesis by (simp only: append_butlast_last_id list.distinct not_False_eq_True)
  qed
  show "lookup q t' \<noteq> None" if "lookup q t \<noteq> None"
  proof (cases "os_path_exists (b, n # ns) t")
    case True
    with assms that show ?thesis by (simp add: ensure_dir_def)
  next
    case False
    with assms have "modify (butlast (n # ns)) (\<lambda>es. Inr (es @ [(last (n # ns), Dir [])])) t = Inr t'"
      by (simp add: ensure_dir_def os_makedirs_def dirname_def basename_def split: if_splits)
    from modify_append_lookup[OF this that] show ?thesis .
  qed
qed

lemma create_directories_body:
  assumes "(let first_dir = os_path_join (base_dir, []) first_level
          in case ensure_dir permits first_dir u of
               Inl e \<Rightarrow> Inl e
             | Inr t' \<Rightarrow>
                 (case dict_get get_letter_groups first_level of
                    Inl e \<Rightarrow> Inl e
                  | Inr groups \<Rightarrow>
                      for_each (\<lambda>g. ensure_dir permits (os_path_join first_dir (fst g))) groups t')) = Inr u'"
  shows "\<exists>u1 (groups :: group list). ensure_dir permits (base_dir, [first_level]) u = Inr u1
      \<and> get_letter_groups first_level = Some groups
      \<and> for_each (\<lambda>g. ensure_dir permits (base_dir, [first_level, fst g])) groups u1 = Inr u'"
  using assms
  by (auto simp: Let_def os_path_join_def dict_get_def split: sum.splits option.splits)

lemma create_directories_body_mono:
  assumes "(let first_dir = os_path_join (base_dir, []) first_level
          in case ensure_dir permits first_dir u of
               Inl e \<Rightarrow> Inl e
             | Inr t' \<Rightarrow>
                 (case dict_get get_letter_groups first_level of
                    Inl e \<Rightarrow> Inl e
                  | Inr groups \<Rightarrow>
                      for_each (\<lambda>g. ensure_dir permits (os_path_join first_dir (fst g))) groups t')) = Inr u'"
    and "lookup q u \<noteq> None"
  shows "lookup q u' \<noteq> None"
proof -
  from create_directories_body[OF assms(1)] obtain u1 and groups :: "group list" where
    e1: "ensure_dir permits (base_dir, [first_level]) u = Inr u1"
    and inner: "for_each (\<lambda>g. ensure_dir permits (base_dir, [first_level, fst g])) groups u1 = Inr u'"
    by blast
  from ensure_dir_lookup(2)[OF e1 assms(2)] have q1: "lookup q u1 \<noteq> None" .
  show ?thesis
  proof (rule for_each_invariant[where P="\<lambda>u. lookup q u \<noteq> None", OF inner q1])
    fix g v v'
    assume "lookup q v \<noteq> None" and "ensure_dir permits (base_dir, [first_level, fst g]) v = Inr v'"
    then show "lookup q v' \<noteq> None" using ensure_dir_lookup(2) by blast
  qed
qed

lemma create_directories_provisioned:
  assumes "create_directories permits base_dir t = Inr t'"
  shows "provisioned t'"
proof -
  let ?Q = "\<lambda>first u. \<forall>groups. get_letter_groups first = Some groups \<longrightarrow>
        (\<forall>g \<in> set groups. lookup [first, fst g] u \<noteq> None)"
  have "\<forall>first \<in> set first_levels. ?Q first t'"
  proof (rule for_each_establishes[where Q="?Q", OF assms[unfolded create_directories_def]])
    fix first_level u u'
    assume body: "(let first_dir = os_path_join (base_dir, []) first_level
          in case ensure_dir permits first_dir u of
               Inl e \<Rightarrow> Inl e
             | Inr t' \<Rightarrow>
                 (case dict_get get_letter_groups first_level of
                    Inl e \<Rightarrow> Inl e
                  | Inr groups \<Rightarrow>
                      for_each (\<lambda>g. ensure_dir permits (os_path_join first_dir (fst g))) groups t')) = Inr u'"
    from create_directories_body[OF body] obtain u1 and groups :: "group list" where
      gs: "get_letter_groups first_level = Some groups"
      and inner: "for_each (\<lambda>g. ensure_dir permits (base_dir, [first_level, fst g])) groups u1 = Inr u'"
      by blast
    have "\<forall>g \<in> set groups. lookup [first_level, fst g] u' \<noteq> None"
    proof (rule for_each_establishes[where Q="\<lambda>g u. lookup [first_level, fst g] u \<noteq> None", OF inner])
      fix g v v'
      assume "ensure_dir permits (base_dir, [first_level, fst g]) v = Inr v'"
      then show "lookup [first_level, fst g] v' \<noteq> None" by (rule ensure_dir_lookup(1))
    next
      fix g h v v'
      assume "lookup [first_level, fst g] v \<noteq> None"
        and "ensure_dir permits (base_dir, [first_level, fst h]) v = Inr v'"
      then show "lookup [first_level, fst g] v' \<noteq> None" using ensure_dir_lookup(2) by blast
    qed
    with gs show "?Q first_level u'" by simp
  next
    fix x y u u'
    assume q: "?Q x u"
      and body: "(let first_dir = os_path_join (base_dir, []) y
          in case ensure_dir permits first_dir u of
               Inl e \<Rightarrow> Inl e
             | Inr t' \<Rightarrow>
                 (case dict_get get_letter_groups y of
                    Inl e \<Rightarrow> Inl e
                  | Inr groups \<Rightarrow>
                      for_each (\<lambda>g. ensure_dir permits (os_path_join first_dir (fst g))) groups t')) = Inr u'"
    show "?Q x u'"
      using q create_directories_body_mono[OF body] by blast
  qed
  then show ?thesis by (simp add: provisioned_def)
qed

lemma first_level_groups:
  assumes "first \<in> set first_levels"
  shows "\<exists>g gs. get_letter_groups first = Some (g # gs)"
proof -
  from assms consider L where "L \<in> set ascii_uppercase" "first = [L]"
    | "first = str ''0-9''" | "first = str ''OTHER''"
    by (auto simp: first_levels_def)
  then show ?thesis
  proof cases
    case 1
    then show ?thesis by (simp add: get_letter_groups_letter groups_for_eq)
  next
    case 2
    then show ?thesis by (simp add: get_letter_groups_digits number_groups_def)
  next
    case 3
    then show ?thesis by (simp add: get_letter_groups_def str_def)
  qed
qed

lemma lookup_prefix: "lookup (ns @ ms) t \<noteq> None \<Longrightarrow> lookup ns t \<noteq> None"
  by (induction ns arbitrary: t) (auto split: fsnode.splits option.splits)

lemma provisioned_create_directories:
  assumes "provisioned t"
  shows "create_directories permits base_dir t = Inr t"
  unfolding create_directories_def
proof (rule for_each_id)
  fix first assume f: "first \<in> set first_levels"
  from first_level_groups[OF f] obtain g gs where gs: "get_letter_groups first = Some (g # gs)"
    by blast
  with assms f have all: "\<forall>h \<in> set (g # gs). lookup [first, fst h] t \<noteq> None"
    by (auto simp: provisioned_def)
  then have "lookup ([first] @ [fst g]) t \<noteq> None" by simp
  then have "lookup [first] t \<noteq> None" by (rule lookup_prefix)
  then have e1: "ensure_dir permits (base_dir, [first]) t = Inr t"
    by (simp add: ensure_dir_def os_path_exists_def del: lookup.simps)
  have "for_each (\<lambda>h. ensure_dir permits (base_dir, [first, fst h])) (g # gs) t = Inr t"
  proof (rule for_each_id)
    fix h assume "h \<in> set (g # gs)"
    with all have "lookup [first, fst h] t \<noteq> None" by blast
    then show "ensure_dir permits (base_dir, [first, fst h]) t = Inr t"
      by (simp add: ensure_dir_def os_path_exists_def del: lookup.simps)
  qed
  with e1 gs show "(let first_dir = os_path_join (base_dir, []) first
          in case ensure_dir permits first_dir t of
               Inl e \<Rightarrow> Inl e
             | Inr t' \<Rightarrow>
                 (case dict_get get_letter_groups first of
                    Inl e \<Rightarrow> Inl e
                  | Inr groups \<Rightarrow>
                      for_each (\<lambda>g. ensure_dir permits (os_path_join first_dir (fst g))) groups t')) = Inr t"
    by (simp add: Let_def os_path_join_def dict_get_def)
qed

lemma modify_lookup_short:
  "modify ns f t = Inr t' \<Longrightarrow> length q \<le> length ns \<Longrightarrow> lookup q t \<noteq> None \<Longrightarrow> lookup q t' \<noteq> None"
proof (induction ns arbitrary: t t' q)
  case Nil
  then show ?case by simp
next
  case (Cons a ns)
  from modify_Dir[OF Cons.prems(1)] obtain es where t: "t = Dir es" by blast
  from modify_Cons[OF Cons.prems(1)[unfolded t]] obtain c c' where
    c: "map_of es a = Some (Dir c)"
    and m: "modify ns f (Dir c) = Inr (Dir c')"
    and t': "t' = Dir (AList.update a (Dir c') es)" by blast
  show ?case
  proof (cases q)
    case Nil
    then show ?thesis by simp
  next
    case q: (Cons k ks)
    show ?thesis
    proof (cases "k = a")
      case True
      with Cons.prems(3) t q c have "lookup ks (Dir c) \<noteq> None" by simp
      moreover from Cons.prems(2) q have "length ks \<le> length ns" by simp
      ultimately have "lookup ks (Dir c') \<noteq> None" using Cons.IH[OF m] by blast
      then show ?thesis using t' q True by (simp add: update_conv')
    next
      case False
      with Cons.prems(3) t q show ?thesis using t' by (simp add: update_conv')
    qed
  qed
qed

lemma rename_provisioned:
  assumes "rename (b, [f]) (b', x # y # k # ks) t = Inr t'" and "provisioned t"
    and "f \<notin> set first_levels"
  shows "provisioned t'"
proof -
  from assms(1) show ?thesis
  proof (cases rule: rename_cases)
    case linked
    with assms(2) show ?thesis by simp
  next
    case (moved node t1)
    note m1 = moved(3) and m2 = moved(4)
    from m2 obtain es1 where t1: "t1 = Dir es1" and t': "t' = Dir (AList.delete f es1)"
      by (auto split: fsnode.splits)
    have "lookup [first, n] t' \<noteq> None" if "first \<in> set first_levels" "lookup [first, n] t \<noteq> None"
      for first n
    proof -
      have "length [first, n] \<le> length (x # butlast (y # k # ks))" by simp
      from modify_lookup_short[OF m1 this that(2)] have "lookup [first, n] t1 \<noteq> None" .
      moreover from that(1) assms(3) have "first \<noteq> f" by blast
      ultimately show ?thesis using t1 t' by simp
    qed
    with assms(2) show ?thesis unfolding provisioned_def by blast
  qed
qed

lemma move_file_provisioned:
  assumes "move_file permits ((b, [f]), (b', [x, y])) t = (ok, t')" and "provisioned t"
    and "f \<notin> set first_levels"
  shows "provisioned t'"
proof (cases "shutil_move permits (b, [f]) (b', [x, y, f]) t")
  case (Inl e)
  with assms(1,2) show ?thesis
    by (simp add: move_file_def Let_def basename_def os_path_join_def)
next
  case (Inr u)
  with assms(1) have u: "t' = u"
    by (simp_all add: move_file_def Let_def basename_def os_path_join_def)
  from Inr have "rename (b, [f]) (b', [x, y, f, f]) t = Inr u \<or> rename (b, [f]) (b', [x, y, f]) t = Inr u"
    by (auto simp: shutil_move_def Let_def basename_def os_path_join_def split: if_splits)
  then have "provisioned u"
    using rename_provisioned[OF _ assms(2,3)] by blast
  with u show ?thesis by simp
qed

lemma move_all_provisioned:
  assumes "\<forall>a \<in> set args. \<exists>f x y. f \<notin> set first_levels \<and> a = ((b, [f]), (b', [x, y]))"
    and "provisioned t"
  shows "provisioned (snd (move_all permits args t))"
  using assms
proof (induction args arbitrary: t)
  case Nil
  then show ?case by simp
next
  case (Cons a args)
  from Cons.prems(1) obtain f x y where f: "f \<notin> set first_levels"
    and a: "a = ((b, [f]), (b', [x, y]))" by auto
  obtain ok t1 where m: "move_file permits a t = (ok, t1)" by (cases "move_file permits a t")
  from move_file_provisioned[OF m[unfolded a] Cons.prems(2) f] have "provisioned t1" .
  moreover from Cons.prems(1)
  have "\<forall>a \<in> set args. \<exists>f x y. f \<notin> set first_levels \<and> a = ((b, [f]), (b', [x, y]))" by simp
  ultimately have "provisioned (snd (move_all permits args t1))" by (rule Cons.IH[rotated])
  then show ?case using m by (simp add: Let_def)
qed

lemma provisioned_files_not_first_level:
  assumes "provisioned t" and "list_files b t = Inr fs" and "f \<in> set fs"
  shows "f \<notin> set first_levels"
proof
  assume fl: "f \<in> set first_levels"
  from list_files_root[OF assms(2)] obtain es where t: "t = Dir es" by blast
  from assms(2,3) t have "case map_of es f of Some (File _) \<Rightarrow> True | _ \<Rightarrow> False"
    by (auto simp: list_files_Dir)
  then obtain a where isf: "map_of es f = Some (File a)"
    by (cases "map_of es f") (auto split: fsnode.splits)
  from first_level_groups[OF fl] obtain g gs where "get_letter_groups f = Some (g # gs)" by blast
  with assms(1) fl have "lookup [f, fst g] t \<noteq> None" by (auto simp: provisioned_def)
  with t isf show False by simp
qed

lemma organize_files_no_files:
  assumes "list_files source_dir t = Inr []" and "dry_run \<or> provisioned t"
  shows "organize_files permits source_dir dry_run t = Inr ((0, 0), t)"
proof -
  have "(if \<not> dry_run then create_directories permits source_dir t else Inr t) = Inr t"
    using assms(2) by (auto simp: provisioned_create_directories)
  with assms(1) show ?thesis
    by (simp add: organize_files_def Let_def)
qed

lemma organize_files_cases:
  assumes "organize_files permits source_dir dry_run t = Inr ((moved, total_files), t')"
  obtains files t1 args where
    "list_files source_dir t = Inr files"
    "total_files = length files"
    "if dry_run then t1 = t else create_directories permits source_dir t = Inr t1"
    "move_arguments source_dir files = Inr args"
    "if dry_run then moved = 0 \<and> t' = t1
     else moved = length (filter id (fst (move_all permits args t1)))
        \<and> t' = snd (move_all permits args t1)"
proof -
  obtain files where lf: "list_files source_dir t = Inr files"
    using assms by (cases "list_files source_dir t") (simp_all add: organize_files_def)
  let ?c = "if \<not> dry_run then create_directories permits source_dir t else Inr t"
  obtain t1 where c: "?c = Inr t1"
    using assms lf by (cases ?c) (simp_all add: organize_files_def Let_def)
  obtain args where a: "move_arguments source_dir files = Inr args"
    using assms lf c by (cases "move_arguments source_dir files")
      (simp_all add: organize_files_def Let_def)
  have r: "(if \<not> dry_run then
              Inr ((length (filter id (fst (move_all permits args t1))), length files),
                   snd (move_all permits args t1))
            else Inr ((0, length files), t1)) = Inr ((moved, total_files), t')"
    using assms unfolding organize_files_def Let_def lf sum.case c a
    by (simp split: if_splits)
  show thesis
  proof (rule that[OF lf _ _ a])
    show "total_files = length files" using r by (simp split: if_splits)
    show "if dry_run then t1 = t else create_directories permits source_dir t = Inr t1"
      using c by (simp split: if_splits)
    show "if dry_run then moved = 0 \<and> t' = t1
     else moved = length (filter id (fst (move_all permits args t1)))
        \<and> t' = snd (move_all permits args t1)"
      using r by (simp split: if_splits)
  qed
qed

lemma map_of_keyed:
  "map_of (map (\<lambda>k. (k, f k)) ks @ rest) k = (if k \<in> set ks then Some (f k) else map_of rest k)"
  by (induction ks) auto

lemma map_of_named:
  "g \<in> set gs \<Longrightarrow> map_of (map (\<lambda>g. (fst g, v)) gs) (fst g) = Some v"
  by (induction gs) auto

lemma bucket_tree_lookup:
  assumes "first \<in> set first_levels" and "get_letter_groups first = Some groups"
  shows "lookup (first # ns) (bucket_tree extra)
           = lookup ns (Dir (map (\<lambda>g. (fst g, Dir [])) groups))"
  using assms by (simp add: bucket_tree_def map_of_keyed del: map_of_append)

lemma bucket_tree_provisioned: "provisioned (bucket_tree extra)"
  unfolding provisioned_def
proof (intro ballI allI impI)
  fix first groups g
  assume "first \<in> set first_levels" "get_letter_groups first = Some groups" "g \<in> set groups"
  then show "lookup [first, fst g] (bucket_tree extra) \<noteq> None"
    by (simp add: bucket_tree_lookup map_of_named del: lookup.simps)
       (simp add: map_of_named)
qed

lemma bucket_tree_list_files:
  assumes "f \<notin> set first_levels"
  shows "list_files b (bucket_tree [(f, File a)]) = Inr [f]"
proof -
  have "filter (\<lambda>k. case map_of (map (\<lambda>k. (k, Dir (h k))) ks @ [(f, File a)]) k of
                       Some (File _) \<Rightarrow> True | _ \<Rightarrow> False) ks = []" for h and ks :: "pystr list"
    by (auto simp: map_of_keyed filter_empty_conv simp del: map_of_append)
  then show ?thesis using assms
    by (simp add: bucket_tree_def list_files_Dir map_of_keyed comp_def del: map_of_append)
qed

lemma modify_succeeds:
  "lookup ns t = Some (Dir es) \<Longrightarrow> \<exists>t'. modify ns (\<lambda>es. Inr (h es)) t = Inr t'"
proof (induction ns arbitrary: t)
  case Nil
  then show ?case by simp
next
  case (Cons n ns)
  then obtain es0 c where "t = Dir es0" "map_of es0 n = Some c" "lookup ns c = Some (Dir es)"
    by (auto split: fsnode.splits option.splits)
  with Cons.IH[of c] show ?case by auto
qed


section \<open>Properties of the metadata indexer: the walk and the isolation of lines\<close>

lemma dirname_join: "dirname (os_path_join root file) = root"
  by (simp add: dirname_def os_path_join_def)

lemma basename_join: "basename (os_path_join root file) = file"
  by (simp add: basename_def os_path_join_def)

lemma collect_not_skipped:
  "p \<in> set (collect ts) \<Longrightarrow> \<not> list_ex (\<lambda>d. str_in d (path_str (dirname p))) skip_dirs"
  by (induction ts rule: collect.induct) (auto simp: dirname_join split: if_splits)

lemma collect_name:
  "p \<in> set (collect ts) \<Longrightarrow>
     basename p \<noteq> str ''config.json'' \<and> \<not> list_ex (\<lambda>suffix. endswith (basename p) suffix) skip_suffixes"
  by (induction ts rule: collect.induct) (auto simp: basename_join split: if_splits)

lemma join2_suffix: "\<exists>a'. join2 a b = a' @ b"
  by (auto simp: join2_def intro: exI[of _ "[]"])

lemma join2_prefix: "\<not> startswith b [sep] \<Longrightarrow> \<exists>b'. join2 a b = a @ b'"
  by (auto simp: join2_def)

lemma foldl_join2_prefix:
  "\<forall>m \<in> set ms. \<not> startswith m [sep] \<Longrightarrow> \<exists>b'. foldl join2 a ms = a @ b'"
proof (induction ms arbitrary: a)
  case Nil
  then show ?case by simp
next
  case (Cons m ms)
  from Cons.prems have "\<not> startswith m [sep]" by simp
  from join2_prefix[OF this, of a] obtain b1 where b1: "join2 a m = a @ b1" by blast
  from Cons.prems have "\<forall>m \<in> set ms. \<not> startswith m [sep]" by simp
  from Cons.IH[OF this, of "join2 a m"] obtain b2 where
    "foldl join2 (join2 a m) ms = join2 a m @ b2" by blast
  with b1 show ?case by simp
qed

lemma str_in_iff': "str_in x s \<longleftrightarrow> (\<exists>p q. s = p @ x @ q)"
  by (rule str_in_iff)

lemma path_str_contains_name:
  assumes "str_in d n" and "n \<in> set ns" and "\<forall>m \<in> set ns. \<not> startswith m [sep]"
  shows "str_in d (path_str (r, ns))"
proof -
  from assms(2) obtain ns1 ns2 where ns: "ns = ns1 @ n # ns2" by (auto simp: in_set_conv_decomp)
  obtain a' where a': "join2 (foldl join2 r ns1) n = a' @ n" using join2_suffix by blast
  from assms(3) ns have "\<forall>m \<in> set ns2. \<not> startswith m [sep]" by simp
  from foldl_join2_prefix[OF this] obtain b' where
    "foldl join2 (join2 (foldl join2 r ns1) n) ns2 = join2 (foldl join2 r ns1) n @ b'" by blast
  with a' ns have s: "path_str (r, ns) = a' @ n @ b'" by (simp add: path_str_def)
  from assms(1) obtain p q where "n = p @ d @ q" by (auto simp: str_in_iff)
  with s have "path_str (r, ns) = (a' @ p) @ d @ (q @ b')" by simp
  then show ?thesis unfolding str_in_iff by blast
qed

text \<open>
  Claim C10. The walk skips a directory when one of the strings \<^verbatim>\<open>.git\<close>, \<^verbatim>\<open>.venv\<close>,
  \<^verbatim>\<open>site-packages\<close>, \<^verbatim>\<open>pip\<close>, \<^verbatim>\<open>python\<close>, \<^verbatim>\<open>__pycache__\<close> occurs anywhere in the text
  of its path: a file whose directory path contains one of them as a substring is never
  collected, in particular every file below a directory whose name contains one (names
  do not start with the separator), such as \<^verbatim>\<open>pipeline\<close> or \<^verbatim>\<open>python-utils\<close>.
\<close>

theorem walk_excludes_by_substring:
  assumes "d \<in> set skip_dirs"
  shows "(str_in d (path_str (dirname p)) \<longrightarrow> p \<notin> set (metadata_files index_dir index))
     \<and> (str_in d n \<and> n \<in> set (snd (dirname p))
          \<and> (\<forall>m \<in> set (snd (dirname p)). \<not> startswith m [sep])
          \<longrightarrow> p \<notin> set (metadata_files index_dir index))"
proof -
  have main: "p \<notin> set (metadata_files index_dir index)" if "str_in d (path_str (dirname p))"
  proof
    assume "p \<in> set (metadata_files index_dir index)"
    then have "\<not> list_ex (\<lambda>d. str_in d (path_str (dirname p))) skip_dirs"
      unfolding metadata_files_def by (rule collect_not_skipped)
    with assms that show False by (auto simp: list_ex_iff)
  qed
  moreover have "p \<notin> set (metadata_files index_dir index)"
    if "str_in d n \<and> n \<in> set (snd (dirname p))
          \<and> (\<forall>m \<in> set (snd (dirname p)). \<not> startswith m [sep])"
  proof -
    from that have "str_in d (path_str (fst (dirname p), snd (dirname p)))"
      using path_str_contains_name by blast
    then show ?thesis using main by simp
  qed
  ultimately show ?thesis by blast
qed

lemma process_line_alike:
  assumes "alike P a b"
  shows "alike P (process_line env f name mirror_dir dry_run line a)
                 (process_line env f name mirror_dir dry_run line b)"
  using assms
  by (simp add: process_line_def alike_def Let_def split: option.splits sum.splits)

lemma process_lines_alike:
  "alike P a b \<Longrightarrow>
     alike P (process_lines env f name mirror_dir dry_run ls a)
             (process_lines env f name mirror_dir dry_run ls b)"
  unfolding process_lines_def
  by (induction ls arbitrary: a b) (simp_all add: process_line_alike)

lemma process_line_unparsable:
  assumes "json_loads env bad = None" and "\<not> P (ParseError f bad)"
  shows "alike P (process_line env f name mirror_dir dry_run bad a) a"
  using assms by (simp add: process_line_def alike_def)

lemma process_line_unparsable_logged:
  assumes "json_loads env bad = None" and "strip bad \<noteq> []"
    and "startswith (strip bad) (str ''{'')" and "endswith (strip bad) (str ''}'')"
  shows "events (process_line env f name mirror_dir dry_run bad a) = events a @ [ParseError f bad]"
  using assms by (simp add: process_line_def)

lemma process_line_events_grow:
  "\<exists>new. events (process_line env f name mirror_dir dry_run line a) = events a @ new"
  by (simp add: process_line_def Let_def split: option.splits sum.splits)

lemma process_lines_events_grow:
  "\<exists>new. events (process_lines env f name mirror_dir dry_run ls a) = events a @ new"
  unfolding process_lines_def
proof (induction ls arbitrary: a)
  case Nil
  then show ?case by simp
next
  case (Cons l ls)
  obtain n1 where n1: "events (process_line env f name mirror_dir dry_run l a) = events a @ n1"
    using process_line_events_grow by blast
  from Cons[of "process_line env f name mirror_dir dry_run l a"] obtain n2 where
    "events (foldl (\<lambda>st line. process_line env f name mirror_dir dry_run line st)
        (process_line env f name mirror_dir dry_run l a) ls)
      = events (process_line env f name mirror_dir dry_run l a) @ n2" by blast
  with n1 show ?case by simp
qed

lemma process_lines_append:
  "process_lines env f name mirror_dir dry_run (ls1 @ ls2) a
     = process_lines env f name mirror_dir dry_run ls2
         (process_lines env f name mirror_dir dry_run ls1 a)"
  by (simp add: process_lines_def)

lemma process_lines_Cons:
  "process_lines env f name mirror_dir dry_run (l # ls) a
     = process_lines env f name mirror_dir dry_run ls
         (process_line env f name mirror_dir dry_run l a)"
  by (simp add: process_lines_def)

lemma alike_trans: "alike P a b \<Longrightarrow> alike P b c \<Longrightarrow> alike P a c"
  by (simp add: alike_def)

lemma process_lines_skip_unparsable:
  assumes "json_loads env bad = None" and "\<not> P (ParseError f bad)" and "alike P a b"
  shows "alike P (process_lines env f name mirror_dir dry_run (ls1 @ bad # ls2) a)
                 (process_lines env f name mirror_dir dry_run (ls1 @ ls2) b)"
proof -
  let ?a1 = "process_lines env f name mirror_dir dry_run ls1 a"
  let ?b1 = "process_lines env f name mirror_dir dry_run ls1 b"
  have "alike P ?a1 ?b1" using assms(3) by (rule process_lines_alike)
  moreover have "alike P (process_line env f name mirror_dir dry_run bad ?a1) ?a1"
    using assms(1,2) by (rule process_line_unparsable)
  ultimately have "alike P (process_line env f name mirror_dir dry_run bad ?a1) ?b1"
    by (rule alike_trans[rotated])
  then show ?thesis
    by (simp only: process_lines_append process_lines_Cons process_lines_alike)
qed

lemma process_metadata_file_alike:
  assumes "fst ml = fst ml'" and "filter P (snd ml) = filter P (snd ml')"
    and "read_at (snd file) index' = read_at (snd file) index"
  shows "fst (process_metadata_file env index (file, mirror_dir, dry_run) ml)
           = fst (process_metadata_file env index' (file, mirror_dir, dry_run) ml')
     \<and> fst (snd (process_metadata_file env index (file, mirror_dir, dry_run) ml))
           = fst (snd (process_metadata_file env index' (file, mirror_dir, dry_run) ml'))
     \<and> filter P (snd (snd (process_metadata_file env index (file, mirror_dir, dry_run) ml)))
           = filter P (snd (snd (process_metadata_file env index' (file, mirror_dir, dry_run) ml')))"
proof -
  have a: "alike P \<lparr>success_count = 0, total_count = 0, tree = fst ml, events = snd ml\<rparr>
                   \<lparr>success_count = 0, total_count = 0, tree = fst ml', events = snd ml'\<rparr>"
    using assms(1,2) by (simp add: alike_def)
  have "alike P (process_lines env file (basename file) mirror_dir dry_run ls
                   \<lparr>success_count = 0, total_count = 0, tree = fst ml, events = snd ml\<rparr>)
                (process_lines env file (basename file) mirror_dir dry_run ls
                   \<lparr>success_count = 0, total_count = 0, tree = fst ml', events = snd ml'\<rparr>)" for ls
    using a by (rule process_lines_alike)
  then show ?thesis
    using assms
    by (cases ml; cases ml'; cases "lookup (snd file) index"; cases "lookup (snd file) index'")
       (auto simp: process_metadata_file_def os_path_isdir_def Let_def alike_def read_at_def
             split: option.splits fsnode.splits)
qed

lemma process_metadata_file_skip_unparsable:
  assumes "fst ml = fst ml'" and "filter P (snd ml) = filter P (snd ml')"
    and "json_loads env bad = None" and "\<not> P (ParseError f bad)"
    and "lookup (snd f) index = Some (File (Some (ls1 @ bad # ls2)))"
    and "lookup (snd f) index' = Some (File (Some (ls1 @ ls2)))"
  shows "fst (process_metadata_file env index (f, mirror_dir, dry_run) ml)
           = fst (process_metadata_file env index' (f, mirror_dir, dry_run) ml')
     \<and> fst (snd (process_metadata_file env index (f, mirror_dir, dry_run) ml))
           = fst (snd (process_metadata_file env index' (f, mirror_dir, dry_run) ml'))
     \<and> filter P (snd (snd (process_metadata_file env index (f, mirror_dir, dry_run) ml)))
           = filter P (snd (snd (process_metadata_file env index' (f, mirror_dir, dry_run) ml')))"
proof -
  have a: "alike P \<lparr>success_count = 0, total_count = 0, tree = fst ml, events = snd ml\<rparr>
                   \<lparr>success_count = 0, total_count = 0, tree = fst ml', events = snd ml'\<rparr>"
    using assms(1,2) by (simp add: alike_def)
  have "alike P (process_lines env f (basename f) mirror_dir dry_run (ls1 @ bad # ls2)
                   \<lparr>success_count = 0, total_count = 0, tree = fst ml, events = snd ml\<rparr>)
                (process_lines env f (basename f) mirror_dir dry_run (ls1 @ ls2)
                   \<lparr>success_count = 0, total_count = 0, tree = fst ml', events = snd ml'\<rparr>)"
    using assms(3,4) a by (rule process_lines_skip_unparsable)
  then show ?thesis
    using assms(1,2,5,6)
    by (cases ml; cases ml')
       (auto simp: process_metadata_file_def os_path_isdir_def Let_def alike_def)
qed

lemma process_all_isolated:
  assumes "json_loads env bad = None"
    and "lookup (snd f) index = Some (File (Some (ls1 @ bad # ls2)))"
    and "lookup (snd f) index' = Some (File (Some (ls1 @ ls2)))"
    and "\<forall>q. q \<noteq> snd f \<longrightarrow> read_at q index' = read_at q index"
    and "\<forall>file \<in> set files. fst file = fst f"
    and "fst ml = fst ml'"
    and "filter (\<lambda>e. e \<noteq> ParseError f bad) (snd ml) = filter (\<lambda>e. e \<noteq> ParseError f bad) (snd ml')"
  shows "fst (process_all env index mirror_dir dry_run files ml)
           = fst (process_all env index' mirror_dir dry_run files ml')
     \<and> fst (snd (process_all env index mirror_dir dry_run files ml))
           = fst (snd (process_all env index' mirror_dir dry_run files ml'))
     \<and> filter (\<lambda>e. e \<noteq> ParseError f bad) (snd (snd (process_all env index mirror_dir dry_run files ml)))
           = filter (\<lambda>e. e \<noteq> ParseError f bad) (snd (snd (process_all env index' mirror_dir dry_run files ml')))"
  using assms(5-7)
proof (induction files arbitrary: ml ml')
  case Nil
  then show ?case by simp
next
  case (Cons x xs)
  let ?P = "\<lambda>e. e \<noteq> ParseError f bad"
  let ?ra = "process_metadata_file env index (x, mirror_dir, dry_run) ml"
  let ?rb = "process_metadata_file env index' (x, mirror_dir, dry_run) ml'"
  have step: "fst ?ra = fst ?rb \<and> fst (snd ?ra) = fst (snd ?rb)
      \<and> filter ?P (snd (snd ?ra)) = filter ?P (snd (snd ?rb))"
  proof (cases "snd x = snd f")
    case True
    with Cons.prems(1) have xf: "x = f" by (simp add: prod_eq_iff)
    have "\<not> ?P (ParseError f bad)" by simp
    from process_metadata_file_skip_unparsable[where P="?P", OF Cons.prems(2,3) assms(1) this assms(2,3)]
    show ?thesis unfolding xf .
  next
    case False
    with assms(4) have "read_at (snd x) index' = read_at (snd x) index" by simp
    then show ?thesis
      by (rule process_metadata_file_alike[where P="?P", OF Cons.prems(2,3)])
  qed
  from Cons.prems(1) have "\<forall>y \<in> set xs. fst y = fst f" by simp
  from Cons.IH[OF this, of "snd ?ra" "snd ?rb"] step show ?case
    by (simp add: Let_def)
qed

lemma os_walk_root_fst:
  "(root, dirs, files) \<in> set (os_walk p (t :: 'a fsnode)) \<Longrightarrow> fst root = fst p"
  "(root, dirs, files) \<in> set (walk_entries p (es :: (pystr \<times> 'a fsnode) list)) \<Longrightarrow> fst root = fst p"
  by (induction p t and p es rule: os_walk_walk_entries.induct)
     (auto simp: os_path_join_def)

lemma collect_root:
  "p \<in> set (collect ts) \<Longrightarrow> \<exists>root dirs files. (root, dirs, files) \<in> set ts \<and> dirname p = root
      \<and> basename p \<in> set files"
proof (induction ts rule: collect.induct)
  case 1
  then show ?case by simp
next
  case (2 root dirs files rest)
  show ?case
  proof (cases "p \<in> set (collect rest)")
    case True
    then show ?thesis using 2 by (auto split: if_splits)
  next
    case False
    with "2.prems" have "dirname p = root \<and> basename p \<in> set files"
      by (auto simp: dirname_join basename_join split: if_splits)
    then have "(root, dirs, files) \<in> set ((root, dirs, files) # rest) \<and> dirname p = root
        \<and> basename p \<in> set files" by simp
    then show ?thesis by blast
  qed
qed

lemma metadata_files_fst:
  assumes "p \<in> set (metadata_files index_dir index)"
  shows "fst p = index_dir"
proof -
  from assms obtain root dirs files where
    "(root, dirs, files) \<in> set (os_walk (index_dir, []) index)" "dirname p = root"
    unfolding metadata_files_def using collect_root by blast
  with os_walk_root_fst(1) have "fst (dirname p) = index_dir" by fastforce
  then show ?thesis by (simp add: dirname_def)
qed

lemma process_metadata_file_events_grow:
  "\<exists>new. snd (snd (process_metadata_file env index args ml)) = snd ml @ new"
  using process_lines_events_grow[of env "fst args" "basename (fst args)" "fst (snd args)" "snd (snd args)" _
      "\<lparr>success_count = 0, total_count = 0, tree = fst ml, events = snd ml\<rparr>"]
  by (auto simp: process_metadata_file_def Let_def split: option.splits fsnode.splits)

lemma process_all_events_grow:
  "\<exists>new. snd (snd (process_all env index mirror_dir dry_run files ml)) = snd ml @ new"
proof (induction files arbitrary: ml)
  case Nil
  then show ?case by simp
next
  case (Cons x xs)
  let ?ra = "process_metadata_file env index (x, mirror_dir, dry_run) ml"
  obtain n1 where n1: "snd (snd ?ra) = snd ml @ n1"
    using process_metadata_file_events_grow by blast
  from Cons[of "snd ?ra"] obtain n2 where
    "snd (snd (process_all env index mirror_dir dry_run xs (snd ?ra))) = snd (snd ?ra) @ n2"
    by blast
  with n1 show ?case by (simp add: Let_def)
qed

lemma process_metadata_file_logs_unparsable:
  assumes "json_loads env bad = None" and "strip bad \<noteq> []"
    and "startswith (strip bad) (str ''{'')" and "endswith (strip bad) (str ''}'')"
    and "lookup (snd f) index = Some (File (Some (ls1 @ bad # ls2)))"
    and "basename f \<notin> set [str ''.git'', str ''config.json'']"
  shows "ParseError f bad \<in> set (snd (snd (process_metadata_file env index (f, mirror_dir, dry_run) ml)))"
proof -
  let ?st0 = "\<lparr>success_count = 0, total_count = 0, tree = fst ml, events = snd ml\<rparr>"
  let ?st1 = "process_lines env f (basename f) mirror_dir dry_run ls1 ?st0"
  let ?st2 = "process_line env f (basename f) mirror_dir dry_run bad ?st1"
  have "events ?st2 = events ?st1 @ [ParseError f bad]"
    using assms(1-4) by (rule process_line_unparsable_logged)
  moreover obtain new where
    "events (process_lines env f (basename f) mirror_dir dry_run ls2 ?st2) = events ?st2 @ new"
    using process_lines_events_grow by blast
  ultimately have "ParseError f bad \<in> set (events
      (process_lines env f (basename f) mirror_dir dry_run (ls1 @ bad # ls2) ?st0))"
    by (simp add: process_lines_append process_lines_Cons)
  then show ?thesis
    using assms(5,6)
    by (simp add: process_metadata_file_def os_path_isdir_def Let_def)
qed

lemma process_all_logs_unparsable:
  assumes "json_loads env bad = None" and "strip bad \<noteq> []"
    and "startswith (strip bad) (str ''{'')" and "endswith (strip bad) (str ''}'')"
    and "lookup (snd f) index = Some (File (Some (ls1 @ bad # ls2)))"
    and "basename f \<notin> set [str ''.git'', str ''config.json'']"
    and "f \<in> set files"
  shows "ParseError f bad \<in> set (snd (snd (process_all env index mirror_dir dry_run files ml)))"
  using assms(7)
proof (induction files arbitrary: ml)
  case Nil
  then show ?case by simp
next
  case (Cons x xs)
  let ?ra = "process_metadata_file env index (x, mirror_dir, dry_run) ml"
  show ?case
  proof (cases "x = f")
    case True
    have "ParseError f bad \<in> set (snd (snd ?ra))"
      unfolding True using assms(1-6) by (rule process_metadata_file_logs_unparsable)
    moreover obtain new where
      "snd (snd (process_all env index mirror_dir dry_run xs (snd ?ra))) = snd (snd ?ra) @ new"
      using process_all_events_grow by blast
    ultimately show ?thesis by (simp add: Let_def)
  next
    case False
    with Cons.prems have "f \<in> set xs" by simp
    from Cons.IH[OF this] show ?thesis by (simp add: Let_def)
  qed
qed

text \<open>
  Claim C8. Let a line of the metadata file \<open>f\<close> fail to parse, and compare the batch
  with the batch on an index that differs only in that \<open>f\<close> lacks the line. The result
  pairs of all files, \<open>f\<close> included, are the same, the mirror tree afterwards is the
  same, and the logs differ at most in the parse error of that line; so the totals
  which \<open>organize_metadata\<close> returns are the same. When the line reaches the parser (it
  passes the brace test in a file that is processed), its parse error is in the log.
\<close>

theorem malformed_line_isolated:
  assumes "json_loads env bad = None"
    and "lookup (snd f) index = Some (File (Some (ls1 @ bad # ls2)))"
    and "lookup (snd f) index' = Some (File (Some (ls1 @ ls2)))"
    and "\<forall>q. q \<noteq> snd f \<longrightarrow> read_at q index' = read_at q index"
    and "\<forall>file \<in> set files. fst file = fst f"
  shows "fst (process_all env index mirror_dir dry_run files (mirror_tree, []))
           = fst (process_all env index' mirror_dir dry_run files (mirror_tree, []))
     \<and> fst (snd (process_all env index mirror_dir dry_run files (mirror_tree, [])))
           = fst (snd (process_all env index' mirror_dir dry_run files (mirror_tree, [])))
     \<and> filter (\<lambda>e. e \<noteq> ParseError f bad)
          (snd (snd (process_all env index mirror_dir dry_run files (mirror_tree, []))))
           = filter (\<lambda>e. e \<noteq> ParseError f bad)
               (snd (snd (process_all env index' mirror_dir dry_run files (mirror_tree, []))))
     \<and> (f \<in> set files \<and> basename f \<notin> set [str ''.git'', str ''config.json'']
          \<and> strip bad \<noteq> [] \<and> startswith (strip bad) (str ''{'') \<and> endswith (strip bad) (str ''}'')
          \<longrightarrow> ParseError f bad
                \<in> set (snd (snd (process_all env index mirror_dir dry_run files (mirror_tree, [])))))
     \<and> (files = metadata_files (fst f) index \<and> files = metadata_files (fst f) index'
          \<longrightarrow> fst (organize_metadata env (fst f) index mirror_dir mirror_tree dry_run)
              = fst (organize_metadata env (fst f) index' mirror_dir mirror_tree dry_run))"
proof -
  have iso: "fst (process_all env index mirror_dir dry_run files (mirror_tree, []))
           = fst (process_all env index' mirror_dir dry_run files (mirror_tree, []))
     \<and> fst (snd (process_all env index mirror_dir dry_run files (mirror_tree, [])))
           = fst (snd (process_all env index' mirror_dir dry_run files (mirror_tree, [])))
     \<and> filter (\<lambda>e. e \<noteq> ParseError f bad)
          (snd (snd (process_all env index mirror_dir dry_run files (mirror_tree, []))))
           = filter (\<lambda>e. e \<noteq> ParseError f bad)
               (snd (snd (process_all env index' mirror_dir dry_run files (mirror_tree, []))))"
    by (rule process_all_isolated[OF assms]) simp_all
  moreover have "ParseError f bad
        \<in> set (snd (snd (process_all env index mirror_dir dry_run files (mirror_tree, []))))"
    if "f \<in> set files \<and> basename f \<notin> set [str ''.git'', str ''config.json'']
          \<and> strip bad \<noteq> [] \<and> startswith (strip bad) (str ''{'') \<and> endswith (strip bad) (str ''}'')"
    using that assms(1,2) process_all_logs_unparsable by blast
  moreover have "fst (organize_metadata env (fst f) index mirror_dir mirror_tree dry_run)
              = fst (organize_metadata env (fst f) index' mirror_dir mirror_tree dry_run)"
    if "files = metadata_files (fst f) index \<and> files = metadata_files (fst f) index'"
    using that iso by (simp add: organize_metadata_def Let_def) metis
  ultimately show ?thesis by blast
qed

lemma example_metadata_files:
  "metadata_files (str ''/index'') example_index = [(str ''/index'', [str ''3'', str ''f'', str ''foo''])]"
  "metadata_files (str ''/index'') example_index_clean = [(str ''/index'', [str ''3'', str ''f'', str ''foo''])]"
  by code_simp+

theorem walk_excludes_by_substring_witness:
  "str ''pip'' \<in> set skip_dirs
   \<and> str_in (str ''pip'') (str ''pipeline'')
   \<and> lookup [str ''pipeline'', str ''bar''] example_index = Some (File (Some [example_line]))
   \<and> (str ''/index'', [str ''pipeline'', str ''bar''])
        \<notin> set (metadata_files (str ''/index'') example_index)"
proof -
  have d: "str ''pip'' \<in> set skip_dirs" by (simp add: skip_dirs_def)
  have s: "str_in (str ''pip'') (str ''pipeline'')" by (simp add: str_def)
  have "str_in (str ''pip'') (str ''pipeline'') \<and> str ''pipeline'' \<in> set (snd (dirname (str ''/index'', [str ''pipeline'', str ''bar''])))
      \<and> (\<forall>m \<in> set (snd (dirname (str ''/index'', [str ''pipeline'', str ''bar'']))). \<not> startswith m [sep])"
    by (simp add: dirname_def str_def sep_def)
  with walk_excludes_by_substring[OF d, where p="(str ''/index'', [str ''pipeline'', str ''bar''])"
      and n="str ''pipeline''" and index_dir="str ''/index''" and index=example_index]
  have "(str ''/index'', [str ''pipeline'', str ''bar''])
        \<notin> set (metadata_files (str ''/index'') example_index)" by blast
  moreover have "lookup [str ''pipeline'', str ''bar''] example_index = Some (File (Some [example_line]))"
    by (simp add: example_index_def str_def)
  ultimately show ?thesis using d s by blast
qed

lemma list_shape4:
  obtains "q = []" | a where "q = [a]" | a b where "q = [a, b]" | a b c where "q = [a, b, c]"
    | a b c d r where "q = a # b # c # d # r"
proof (cases q)
  case Nil
  then show ?thesis using that by blast
next
  case q1: (Cons a q1)
  show ?thesis
  proof (cases q1)
    case Nil
    with q1 show ?thesis using that by blast
  next
    case q2: (Cons b q2)
    show ?thesis
    proof (cases q2)
      case Nil
      with q1 q2 show ?thesis using that by blast
    next
      case q3: (Cons c q3)
      show ?thesis
      proof (cases q3)
        case Nil
        with q1 q2 q3 show ?thesis using that by blast
      next
        case (Cons d r)
        with q1 q2 q3 show ?thesis using that by blast
      qed
    qed
  qed
qed

lemma example_read_at:
  "q \<noteq> [str ''3'', str ''f'', str ''foo''] \<Longrightarrow> read_at q example_index_clean = read_at q example_index"
  by (cases q rule: list_shape4)
     (auto simp: read_at_def example_index_def example_index_clean_def str_def)

lemma example_loads:
  "json_loads example_runtime example_line = Some example_record"
  "json_loads example_runtime example_bad_line = None"
  "json_loads example_runtime [10] = None"
  by (simp_all add: example_runtime_def example_line_def example_bad_line_def str_def)

lemma example_filter:
  "strip example_line \<noteq> []" "startswith (strip example_line) (str ''{'')" "endswith (strip example_line) (str ''}'')"
  "strip example_bad_line \<noteq> []" "startswith (strip example_bad_line) (str ''{'')" "endswith (strip example_bad_line) (str ''}'')"
  "strip [10] = []"
  by (simp_all add: example_line_def example_bad_line_def str_def strip_def is_space_def endswith_def)

lemma example_vers: "get_vers example_record = Inr (JStr (str ''1.0.0''))"
  by (simp add: get_vers_def example_record_def str_def)

lemma example_walk:
  "os_walk (str ''/mirror'', []) example_mirror =
     [((str ''/mirror'', []), [str ''F'', str ''dup''], []),
      ((str ''/mirror'', [str ''F'']), [str ''FM-FP''], []),
      ((str ''/mirror'', [str ''F'', str ''FM-FP'']), [], [str ''foo-1.0.0.crate'']),
      ((str ''/mirror'', [str ''dup'']), [], [str ''foo-1.0.0.crate''])]"
  by (simp add: example_mirror_def os_path_join_def)

lemma example_find:
  "find_crate_file example_runtime (str ''foo'') (JStr (str ''1.0.0'')) (str ''/mirror'') example_mirror
     = Some (str ''/mirror'', [str ''F'', str ''FM-FP'', str ''foo-1.0.0.crate''])"
  unfolding find_crate_file_def example_walk
  by (simp add: format_value_def os_path_join_def Let_def str_def)

lemma example_write:
  "write_json example_runtime (str ''/mirror'', [str ''F'', str ''FM-FP'', str ''foo-1.0.0.metadata.json''])
      example_record 2 example_mirror = Inr example_mirror_written"
  by (simp add: write_json_def example_runtime_def os_path_isdir_def example_mirror_def
      example_mirror_written_def dirname_def basename_def str_def)

lemma example_process_line:
  "process_line example_runtime f (str ''foo'') (str ''/mirror'') False example_line
      \<lparr>success_count = s, total_count = n, tree = example_mirror, events = es\<rparr>
   = \<lparr>success_count = s + 1, total_count = n + 1, tree = example_mirror_written,
      events = es @ [Written (str ''/mirror'', [str ''F'', str ''FM-FP'', str ''foo-1.0.0.metadata.json''])]\<rparr>"
  "process_line example_runtime f (str ''foo'') (str ''/mirror'') True example_line
      \<lparr>success_count = s, total_count = n, tree = example_mirror, events = es\<rparr>
   = \<lparr>success_count = s + 1, total_count = n + 1, tree = example_mirror, events = es\<rparr>"
  "process_line example_runtime f name (str ''/mirror'') dry_run example_bad_line st
   = st\<lparr>events := events st @ [ParseError f example_bad_line]\<rparr>"
  "process_line example_runtime f name (str ''/mirror'') dry_run [10] st = st"
proof -
  have ne: "str ''1.0.0'' \<noteq> []" by (simp add: str_def)
  have w: "write_json example_runtime
      (os_path_join (dirname (str ''/mirror'', [str ''F'', str ''FM-FP'', str ''foo-1.0.0.crate'']))
         (str ''foo'' @ str ''-'' @ format_value example_runtime (JStr (str ''1.0.0'')) @ str ''.metadata.json''))
      example_record 2 example_mirror = Inr example_mirror_written"
    using example_write by (simp add: dirname_def os_path_join_def format_value_def str_def)
  have o: "os_path_join (dirname (str ''/mirror'', [str ''F'', str ''FM-FP'', str ''foo-1.0.0.crate'']))
         (str ''foo'' @ str ''-'' @ format_value example_runtime (JStr (str ''1.0.0'')) @ str ''.metadata.json'')
      = (str ''/mirror'', [str ''F'', str ''FM-FP'', str ''foo-1.0.0.metadata.json''])"
    by (simp add: dirname_def os_path_join_def format_value_def str_def)
  show "process_line example_runtime f (str ''foo'') (str ''/mirror'') False example_line
      \<lparr>success_count = s, total_count = n, tree = example_mirror, events = es\<rparr>
   = \<lparr>success_count = s + 1, total_count = n + 1, tree = example_mirror_written,
      events = es @ [Written (str ''/mirror'', [str ''F'', str ''FM-FP'', str ''foo-1.0.0.metadata.json''])]\<rparr>"
    by (simp add: process_line_def example_loads example_filter example_vers example_find ne w Let_def)
       (simp add: o)
  show "process_line example_runtime f (str ''foo'') (str ''/mirror'') True example_line
      \<lparr>success_count = s, total_count = n, tree = example_mirror, events = es\<rparr>
   = \<lparr>success_count = s + 1, total_count = n + 1, tree = example_mirror, events = es\<rparr>"
    by (simp add: process_line_def example_loads example_filter example_vers example_find ne Let_def)
  show "process_line example_runtime f name (str ''/mirror'') dry_run example_bad_line st
   = st\<lparr>events := events st @ [ParseError f example_bad_line]\<rparr>"
    by (simp add: process_line_def example_loads example_filter)
  show "process_line example_runtime f name (str ''/mirror'') dry_run [10] st = st"
    by (simp add: process_line_def example_filter)
qed

lemma example_process_file:
  "process_metadata_file example_runtime example_index
      ((str ''/index'', [str ''3'', str ''f'', str ''foo'']), str ''/mirror'', False) (example_mirror, [])
   = ((1, 1), example_mirror_written,
      [ParseError (str ''/index'', [str ''3'', str ''f'', str ''foo'']) example_bad_line,
       Written (str ''/mirror'', [str ''F'', str ''FM-FP'', str ''foo-1.0.0.metadata.json''])])"
  "process_metadata_file example_runtime example_index
      ((str ''/index'', [str ''3'', str ''f'', str ''foo'']), str ''/mirror'', True) (example_mirror, [])
   = ((1, 1), example_mirror,
      [ParseError (str ''/index'', [str ''3'', str ''f'', str ''foo'']) example_bad_line])"
proof -
  have b: "basename (str ''/index'', [str ''3'', str ''f'', str ''foo'']) = str ''foo''"
    and nb: "str ''foo'' \<notin> set [str ''.git'', str ''config.json'']"
    and l: "lookup [str ''3'', str ''f'', str ''foo''] example_index
        = Some (File (Some [example_bad_line, example_line, [10]]))"
    by (simp_all add: basename_def example_index_def str_def)
  show "process_metadata_file example_runtime example_index
      ((str ''/index'', [str ''3'', str ''f'', str ''foo'']), str ''/mirror'', False) (example_mirror, [])
   = ((1, 1), example_mirror_written,
      [ParseError (str ''/index'', [str ''3'', str ''f'', str ''foo'']) example_bad_line,
       Written (str ''/mirror'', [str ''F'', str ''FM-FP'', str ''foo-1.0.0.metadata.json''])])"
    using nb
    by (simp add: process_metadata_file_def b l os_path_isdir_def Let_def process_lines_def
        example_process_line del: set_simps lookup.simps)
  show "process_metadata_file example_runtime example_index
      ((str ''/index'', [str ''3'', str ''f'', str ''foo'']), str ''/mirror'', True) (example_mirror, [])
   = ((1, 1), example_mirror,
      [ParseError (str ''/index'', [str ''3'', str ''f'', str ''foo'']) example_bad_line])"
    using nb
    by (simp add: process_metadata_file_def b l os_path_isdir_def Let_def process_lines_def
        example_process_line del: set_simps lookup.simps)
qed

lemma example_run:
  "organize_metadata example_runtime (str ''/index'') example_index (str ''/mirror'') example_mirror False
   = ((1, 1), example_mirror_written,
      [ParseError (str ''/index'', [str ''3'', str ''f'', str ''foo'']) example_bad_line,
       Written (str ''/mirror'', [str ''F'', str ''FM-FP'', str ''foo-1.0.0.metadata.json''])])"
  "organize_metadata example_runtime (str ''/index'') example_index (str ''/mirror'') example_mirror True
   = ((1, 1), example_mirror,
      [ParseError (str ''/index'', [str ''3'', str ''f'', str ''foo'']) example_bad_line])"
  by (simp_all add: organize_metadata_def example_metadata_files example_process_file Let_def)

theorem malformed_line_isolated_witness:
  "json_loads example_runtime example_bad_line = None
   \<and> fst (organize_metadata example_runtime (str ''/index'') example_index
            (str ''/mirror'') example_mirror False)
       = fst (organize_metadata example_runtime (str ''/index'') example_index_clean
            (str ''/mirror'') example_mirror False)
   \<and> fst (organize_metadata example_runtime (str ''/index'') example_index
            (str ''/mirror'') example_mirror False) = (1, 1)
   \<and> ParseError (str ''/index'', [str ''3'', str ''f'', str ''foo'']) example_bad_line
        \<in> set (snd (snd (process_all example_runtime example_index (str ''/mirror'') False
              (metadata_files (str ''/index'') example_index) (example_mirror, []))))"
proof -
  let ?f = "(str ''/index'', [str ''3'', str ''f'', str ''foo''])"
  let ?files = "metadata_files (str ''/index'') example_index"
  have bad: "json_loads example_runtime example_bad_line = None"
    by (rule example_loads)
  have l1: "lookup (snd ?f) example_index
      = Some (File (Some ([] @ example_bad_line # [example_line, [10]])))"
    by (simp add: example_index_def str_def)
  have l2: "lookup (snd ?f) example_index_clean = Some (File (Some ([] @ [example_line, [10]])))"
    by (simp add: example_index_clean_def str_def)
  have rest: "\<forall>q. q \<noteq> snd ?f \<longrightarrow> read_at q example_index_clean = read_at q example_index"
    using example_read_at by simp
  have fs: "\<forall>file \<in> set ?files. fst file = fst ?f"
    by (simp add: example_metadata_files)
  have pre: "?f \<in> set ?files
      \<and> basename ?f \<notin> set [str ''.git'', str ''config.json'']
      \<and> strip example_bad_line \<noteq> [] \<and> startswith (strip example_bad_line) (str ''{'')
      \<and> endswith (strip example_bad_line) (str ''}'')"
    using example_filter by (simp add: example_metadata_files basename_def) (simp add: str_def)
  have same: "?files = metadata_files (fst ?f) example_index
      \<and> ?files = metadata_files (fst ?f) example_index_clean"
    by (simp add: example_metadata_files)
  have v: "fst (organize_metadata example_runtime (str ''/index'') example_index
            (str ''/mirror'') example_mirror False) = (1, 1)"
    by (simp add: example_run)
  note t = malformed_line_isolated[OF bad l1 l2 rest fs, of "str ''/mirror''" False example_mirror]
  from t pre have "ParseError ?f example_bad_line
        \<in> set (snd (snd (process_all example_runtime example_index (str ''/mirror'') False
              ?files (example_mirror, []))))" by blast
  moreover from t same have "fst (organize_metadata example_runtime (fst ?f) example_index
            (str ''/mirror'') example_mirror False)
       = fst (organize_metadata example_runtime (fst ?f) example_index_clean
            (str ''/mirror'') example_mirror False)" by blast
  ultimately show ?thesis using bad v by simp
qed

section \<open>Properties of the metadata indexer: simulation and normal runs\<close>

lemma walk_agree_refl: "walk_agree x ts ts"
  by (simp add: walk_agree_def list_all2_refl)

lemma walk_agree_append:
  "walk_agree x as as' \<Longrightarrow> walk_agree x bs bs' \<Longrightarrow> walk_agree x (as @ bs) (as' @ bs')"
  by (simp add: walk_agree_def list_all2_appendI)

lemma walk_agree_first_match:
  "walk_agree x ts ts' \<Longrightarrow> first_match x ts = first_match x ts'"
  unfolding walk_agree_def
  by (induction ts ts' rule: list_all2_induct) (auto simp: os_path_join_def)

lemma walk_entries_update_file:
  assumes "case map_of es name of Some (Dir _) \<Rightarrow> False | _ \<Rightarrow> True"
  shows "walk_entries r (AList.update name (File c) es) = walk_entries r es"
  using assms
proof (induction es)
  case Nil
  then show ?case by simp
next
  case (Cons e es)
  show ?case
  proof (cases "fst e = name")
    case True
    with Cons.prems obtain c0 where "snd e = File c0" by (cases "snd e") auto
    with True show ?thesis by simp
  next
    case False
    with Cons show ?thesis by simp
  qed
qed

lemma names_update_file:
  assumes "x \<noteq> name"
  shows "x \<in> fst ` set (filter (\<lambda>e. is_file (snd e)) (AList.update name (File c) es))
     \<longleftrightarrow> x \<in> fst ` set (filter (\<lambda>e. is_file (snd e)) es)"
  using assms by (induction es) auto

lemma dirs_update_file:
  assumes "case map_of es name of Some (Dir _) \<Rightarrow> False | _ \<Rightarrow> True"
  shows "filter (\<lambda>e. \<not> is_file (snd e)) (AList.update name (File c) es)
     = filter (\<lambda>e. \<not> is_file (snd e)) es"
  using assms
proof (induction es)
  case Nil
  then show ?case by simp
next
  case (Cons e es)
  show ?case
  proof (cases "fst e = name")
    case True
    with Cons.prems obtain c0 where "snd e = File c0" by (cases "snd e") auto
    with True show ?thesis by simp
  next
    case False
    with Cons show ?thesis by simp
  qed
qed

lemma update_dir_filter:
  assumes "map_of es a = Some (Dir c0)"
  shows "map fst (filter (\<lambda>e. P (is_file (snd e))) (AList.update a (Dir c1) es))
     = map fst (filter (\<lambda>e. P (is_file (snd e))) es)"
  using assms by (induction es) (auto split: if_splits)

lemma walk_entries_update_dir:
  assumes "map_of es a = Some (Dir c0)"
    and "\<And>r'. walk_agree x (os_walk r' (Dir c0)) (os_walk r' (Dir c1))"
  shows "walk_agree x (walk_entries r es) (walk_entries r (AList.update a (Dir c1) es))"
  using assms(1)
proof (induction es)
  case Nil
  then show ?case by simp
next
  case (Cons e es)
  show ?case
  proof (cases "fst e = a")
    case True
    with Cons.prems have e: "snd e = Dir c0" by simp
    have "walk_agree x (os_walk (os_path_join r a) (Dir c0) @ walk_entries r es)
            (os_walk (os_path_join r a) (Dir c1) @ walk_entries r es)"
      using assms(2) walk_agree_refl by (rule walk_agree_append)
    with True e show ?thesis by (simp del: os_walk.simps)
  next
    case False
    with Cons show ?thesis by (simp add: walk_agree_append walk_agree_refl)
  qed
qed

lemma modify_walk_agree:
  assumes "modify ns (\<lambda>es. Inr (AList.update name (File c) es)) t = Inr t'"
    and "case lookup (ns @ [name]) t of Some (Dir _) \<Rightarrow> False | _ \<Rightarrow> True"
    and "x \<noteq> name"
  shows "walk_agree x (os_walk r t) (os_walk r t')"
  using assms(1,2)
proof (induction ns arbitrary: t t' r)
  case Nil
  then obtain es where t: "t = Dir es" and t': "t' = Dir (AList.update name (File c) es)"
    by (auto split: fsnode.splits)
  from Nil.prems(2) t have nd: "case map_of es name of Some (Dir _) \<Rightarrow> False | _ \<Rightarrow> True"
    by (auto split: option.splits)
  show ?case
    unfolding t t'
    using names_update_file[OF assms(3), of c es]
    by (simp add: walk_agree_def walk_entries_update_file[OF nd] dirs_update_file[OF nd]
        list_all2_refl)
next
  case (Cons a ns)
  from modify_Dir[OF Cons.prems(1)] obtain es where t: "t = Dir es" by blast
  from modify_Cons[OF Cons.prems(1)[unfolded t]] obtain c0 c1 where
    c: "map_of es a = Some (Dir c0)"
    and m: "modify ns (\<lambda>es. Inr (AList.update name (File c) es)) (Dir c0) = Inr (Dir c1)"
    and t': "t' = Dir (AList.update a (Dir c1) es)" by blast
  from Cons.prems(2) t c have "case lookup (ns @ [name]) (Dir c0) of Some (Dir _) \<Rightarrow> False | _ \<Rightarrow> True"
    by simp
  from Cons.IH[OF m this] have ih: "\<And>r'. walk_agree x (os_walk r' (Dir c0)) (os_walk r' (Dir c1))" .
  have "walk_agree x (walk_entries r es) (walk_entries r (AList.update a (Dir c1) es))"
    using c ih by (rule walk_entries_update_dir)
  then show ?case
    unfolding t t'
    using update_dir_filter[OF c, of "\<lambda>b. b" c1] update_dir_filter[OF c, of "\<lambda>b. \<not> b" c1]
    by (simp add: walk_agree_def)
qed

lemma endswith_append: "endswith (xs @ s) s"
  by (simp add: endswith_def startswith_iff)

lemma endswith_last: "endswith x s \<Longrightarrow> s \<noteq> [] \<Longrightarrow> x \<noteq> [] \<and> last x = last s"
  by (auto simp: endswith_def startswith_iff rev_eq_append_conv)

lemma crate_not_sidecar:
  assumes "endswith x (str ''.crate'')"
  shows "x \<noteq> name @ str ''.metadata.json''"
proof
  assume "x = name @ str ''.metadata.json''"
  then have "endswith x (str ''.metadata.json'')" by (simp add: endswith_append)
  then have "last x = last (str ''.metadata.json'')"
    using endswith_last by (simp add: str_def)
  moreover from assms have "last x = last (str ''.crate'')"
    using endswith_last by (simp add: str_def)
  ultimately show False by (simp add: str_def)
qed

lemma write_json_error: "write_json env p m i t = Inl e \<Longrightarrow> e = OSError"
proof -
  have "modify ns (\<lambda>es. Inr (g es)) u = Inl e \<Longrightarrow> e = OSError" for ns g and u :: "mirror_file fsnode"
    by (induction ns arbitrary: u) (auto split: fsnode.splits option.splits sum.splits)
  then show "write_json env p m i t = Inl e \<Longrightarrow> e = OSError"
    by (auto simp: write_json_def split: if_splits)
qed

lemma write_json_first_match:
  assumes "write_json env (r0, ns @ [name]) m i t = Inr t'" and "x \<noteq> name"
  shows "first_match x (os_walk r t) = first_match x (os_walk r t')"
proof -
  from assms(1) have
    m: "modify ns (\<lambda>es. Inr (AList.update name (File (JsonDump m i)) es)) t = Inr t'"
    and nd: "\<not> os_path_isdir (r0, ns @ [name]) t"
    by (auto simp: write_json_def dirname_def basename_def split: if_splits)
  from nd have "case lookup (ns @ [name]) t of Some (Dir _) \<Rightarrow> False | _ \<Rightarrow> True"
    by (auto simp: os_path_isdir_def split: option.splits fsnode.splits)
  from modify_walk_agree[OF m this assms(2)] show ?thesis
    by (rule walk_agree_first_match)
qed

lemma write_json_same_crates:
  assumes "write_json env (os_path_join d (name @ str ''.metadata.json'')) m i t = Inr t'"
  shows "same_crates mirror_dir t t'"
  unfolding same_crates_def
proof (intro allI impI)
  fix x assume "endswith x (str ''.crate'')"
  then have "x \<noteq> name @ str ''.metadata.json''" by (rule crate_not_sidecar)
  with assms show "first_match x (os_walk (mirror_dir, []) t) = first_match x (os_walk (mirror_dir, []) t')"
    using write_json_first_match[of env "fst d" "snd d"] by (simp add: os_path_join_def)
qed

lemma same_crates_refl: "same_crates mirror_dir t t"
  by (simp add: same_crates_def)

lemma same_crates_trans:
  "same_crates mirror_dir t u \<Longrightarrow> same_crates mirror_dir u v \<Longrightarrow> same_crates mirror_dir t v"
  by (simp add: same_crates_def)

lemma same_crates_find:
  "same_crates mirror_dir t t' \<Longrightarrow>
     find_crate_file env name version mirror_dir t = find_crate_file env name version mirror_dir t'"
proof -
  assume s: "same_crates mirror_dir t t'"
  have "endswith (name @ str ''-'' @ format_value env version @ str ''.crate'') (str ''.crate'')"
    using endswith_append[of "name @ str ''-'' @ format_value env version" "str ''.crate''"]
    by simp
  with s show ?thesis by (simp add: same_crates_def find_crate_file_def Let_def)
qed

lemma write_failures_append [simp]:
  "write_failures (es @ new) = write_failures es + write_failures new"
  by (simp add: write_failures_def)

lemma get_vers_error: "get_vers m = Inl e \<Longrightarrow> e = AttributeError"
  by (auto simp: get_vers_def split: json.splits)

lemma process_line_dry_tree:
  "tree (process_line env f name mirror_dir True line a) = tree a"
  by (simp add: process_line_def Let_def split: option.splits sum.splits)

lemma process_line_dry_no_write:
  "Written p \<notin> set (events a) \<Longrightarrow> Written p \<notin> set (events (process_line env f name mirror_dir True line a))"
  by (simp add: process_line_def Let_def split: option.splits sum.splits)

lemma process_line_sim:
  assumes "sim_rel mirror_dir k a b"
  shows "sim_rel mirror_dir k (process_line env f name mirror_dir True line a)
                            (process_line env f name mirror_dir False line b)"
proof (cases "strip line = [] \<or> \<not> (startswith (strip line) (str ''{'') \<and> endswith (strip line) (str ''}''))")
  case True
  with assms show ?thesis by (auto simp: process_line_def)
next
  case pass: False
  show ?thesis
  proof (cases "json_loads env line")
    case None
    with pass assms show ?thesis
      by (simp add: process_line_def sim_rel_def write_failures_def)
  next
    case (Some metadata)
    show ?thesis
    proof (cases "get_vers metadata")
      case (Inl e)
      then have "e = AttributeError" by (rule get_vers_error)
      with pass Some Inl assms show ?thesis
        by (simp add: process_line_def sim_rel_def write_failures_def)
    next
      case (Inr version)
      show ?thesis
      proof (cases "truthy version")
        case False
        with pass Some Inr assms show ?thesis by (simp add: process_line_def)
      next
        case True
        from assms have sc: "same_crates mirror_dir (tree a) (tree b)" by (simp add: sim_rel_def)
        then have fe: "find_crate_file env name version mirror_dir (tree a)
            = find_crate_file env name version mirror_dir (tree b)" by (rule same_crates_find)
        show ?thesis
        proof (cases "find_crate_file env name version mirror_dir (tree b)")
          case None
          with pass Some Inr True fe assms show ?thesis
            by (simp add: process_line_def sim_rel_def write_failures_def Let_def)
        next
          case found: (Some crate_file_path)
          let ?out = "os_path_join (dirname crate_file_path)
                        (name @ str ''-'' @ format_value env version @ str ''.metadata.json'')"
          show ?thesis
          proof (cases "write_json env ?out metadata 2 (tree b)")
            case (Inl e)
            then have "e = OSError" by (rule write_json_error)
            with pass Some Inr True fe found Inl assms show ?thesis
              by (simp add: process_line_def sim_rel_def write_failures_def Let_def)
          next
            case w: (Inr mirror')
            have "same_crates mirror_dir (tree b) mirror'"
              using write_json_same_crates[of env "dirname crate_file_path"
                  "name @ str ''-'' @ format_value env version" metadata 2 "tree b" mirror'] w
              by simp
            with sc have "same_crates mirror_dir (tree a) mirror'" by (rule same_crates_trans)
            with pass Some Inr True fe found w assms show ?thesis
              by (simp add: process_line_def sim_rel_def write_failures_def Let_def)
          qed
        qed
      qed
    qed
  qed
qed

lemma process_lines_sim:
  "sim_rel mirror_dir k a b \<Longrightarrow>
     sim_rel mirror_dir k (process_lines env f name mirror_dir True ls a)
                         (process_lines env f name mirror_dir False ls b)"
  unfolding process_lines_def
  by (induction ls arbitrary: a b) (simp_all add: process_line_sim)

lemma process_lines_dry_tree:
  "tree (process_lines env f name mirror_dir True ls a) = tree a"
  unfolding process_lines_def
  by (induction ls arbitrary: a) (simp_all add: process_line_dry_tree)

lemma process_lines_dry_no_write:
  "Written p \<notin> set (events a) \<Longrightarrow>
     Written p \<notin> set (events (process_lines env f name mirror_dir True ls a))"
  unfolding process_lines_def
  by (induction ls arbitrary: a) (simp_all add: process_line_dry_no_write)

lemma process_metadata_file_sim:
  assumes "same_crates mirror_dir (fst ml) (fst ml')"
  shows "snd (fst (process_metadata_file env index (f, mirror_dir, True) ml))
           = snd (fst (process_metadata_file env index (f, mirror_dir, False) ml'))
     \<and> fst (fst (process_metadata_file env index (f, mirror_dir, True) ml)) + write_failures (snd ml')
           = fst (fst (process_metadata_file env index (f, mirror_dir, False) ml'))
             + write_failures (snd (snd (process_metadata_file env index (f, mirror_dir, False) ml')))
     \<and> same_crates mirror_dir (fst (snd (process_metadata_file env index (f, mirror_dir, True) ml)))
           (fst (snd (process_metadata_file env index (f, mirror_dir, False) ml')))"
proof -
  let ?a = "\<lparr>success_count = 0, total_count = 0, tree = fst ml, events = snd ml\<rparr>"
  let ?b = "\<lparr>success_count = 0, total_count = 0, tree = fst ml', events = snd ml'\<rparr>"
  have "sim_rel mirror_dir (write_failures (snd ml')) ?a ?b"
    using assms by (simp add: sim_rel_def)
  then have "sim_rel mirror_dir (write_failures (snd ml'))
      (process_lines env f (basename f) mirror_dir True ls ?a)
      (process_lines env f (basename f) mirror_dir False ls ?b)" for ls
    by (rule process_lines_sim)
  then show ?thesis
    using assms
    by (cases ml; cases ml')
       (auto simp: process_metadata_file_def Let_def sim_rel_def write_failures_def
             split: option.splits fsnode.splits)
qed

lemma process_metadata_file_dry:
  "fst (snd (process_metadata_file env index (f, mirror_dir, True) ml)) = fst ml"
  "Written p \<notin> set (snd ml) \<Longrightarrow>
     Written p \<notin> set (snd (snd (process_metadata_file env index (f, mirror_dir, True) ml)))"
  using process_lines_dry_no_write[of p
      "\<lparr>success_count = 0, total_count = 0, tree = fst ml, events = snd ml\<rparr>" env f
      "basename f" mirror_dir]
  by (auto simp: process_metadata_file_def Let_def process_lines_dry_tree
           split: option.splits fsnode.splits)

lemma process_all_sim:
  assumes "same_crates mirror_dir (fst ml) (fst ml')"
  shows "sum_list (map snd (fst (process_all env index mirror_dir True files ml)))
           = sum_list (map snd (fst (process_all env index mirror_dir False files ml')))
     \<and> sum_list (map fst (fst (process_all env index mirror_dir True files ml)))
           + write_failures (snd ml')
         = sum_list (map fst (fst (process_all env index mirror_dir False files ml')))
           + write_failures (snd (snd (process_all env index mirror_dir False files ml')))
     \<and> same_crates mirror_dir (fst (snd (process_all env index mirror_dir True files ml)))
           (fst (snd (process_all env index mirror_dir False files ml')))"
  using assms
proof (induction files arbitrary: ml ml')
  case Nil
  then show ?case by simp
next
  case (Cons x xs)
  let ?ra = "process_metadata_file env index (x, mirror_dir, True) ml"
  let ?rb = "process_metadata_file env index (x, mirror_dir, False) ml'"
  note step = process_metadata_file_sim[OF Cons.prems, of env index x]
  then have sc: "same_crates mirror_dir (fst (snd ?ra)) (fst (snd ?rb))" by simp
  note ih = Cons.IH[OF sc]
  from step ih show ?case by (simp add: Let_def)
qed

lemma process_all_dry:
  "fst (snd (process_all env index mirror_dir True files ml)) = fst ml"
  "Written p \<notin> set (snd ml) \<Longrightarrow>
     Written p \<notin> set (snd (snd (process_all env index mirror_dir True files ml)))"
  by (induction files arbitrary: ml) (simp_all add: Let_def process_metadata_file_dry)

lemma process_line_dry_record:
  assumes "strip line \<noteq> []" and "startswith (strip line) (str ''{'')"
    and "endswith (strip line) (str ''}'')" and "json_loads env line = Some metadata"
    and "get_vers metadata = Inr version" and "truthy version"
  shows "success_count (process_line env f name mirror_dir True line st)
           = success_count st
             + (if find_crate_file env name version mirror_dir (tree st) = None then 0 else 1)"
    and "total_count (process_line env f name mirror_dir True line st) = total_count st + 1"
  using assms by (auto simp: process_line_def Let_def split: option.splits)

text \<open>
  Claim C7, as amended. On the same index and mirror, the normal run attempts as many
  records as the simulation, and the simulation's success count is the normal run's
  success count plus the number of records whose sidecar could not be written in the
  normal run (the exception is caught and logged, and the record is not counted): the
  two success counts are equal when no write fails. The simulation leaves the mirror
  as it is and writes nothing, and it counts a record with a version as a success
  exactly when a matching archive is found.
\<close>

theorem simulation_counts:
  "snd (fst (organize_metadata env index_dir index mirror_dir mirror_tree False))
     = snd (fst (organize_metadata env index_dir index mirror_dir mirror_tree True))
   \<and> fst (fst (organize_metadata env index_dir index mirror_dir mirror_tree False))
       + write_failures (snd (snd (organize_metadata env index_dir index mirror_dir mirror_tree False)))
     = fst (fst (organize_metadata env index_dir index mirror_dir mirror_tree True))
   \<and> (write_failures (snd (snd (organize_metadata env index_dir index mirror_dir mirror_tree False))) = 0
        \<longrightarrow> fst (organize_metadata env index_dir index mirror_dir mirror_tree False)
            = fst (organize_metadata env index_dir index mirror_dir mirror_tree True))
   \<and> fst (snd (organize_metadata env index_dir index mirror_dir mirror_tree True)) = mirror_tree
   \<and> Written p \<notin> set (snd (snd (organize_metadata env index_dir index mirror_dir mirror_tree True)))
   \<and> (strip line \<noteq> [] \<and> startswith (strip line) (str ''{'') \<and> endswith (strip line) (str ''}'')
        \<and> json_loads env line = Some metadata \<and> get_vers metadata = Inr version \<and> truthy version
        \<longrightarrow> success_count (process_line env f name mirror_dir True line st)
              = success_count st
                + (if find_crate_file env name version mirror_dir (tree st) = None then 0 else 1)
            \<and> tree (process_line env f name mirror_dir True line st) = tree st)"
proof -
  let ?files = "metadata_files index_dir index"
  let ?A = "process_all env index mirror_dir True ?files (mirror_tree, [])"
  let ?B = "process_all env index mirror_dir False ?files (mirror_tree, [])"
  have "same_crates mirror_dir (fst (mirror_tree, [] :: event list)) (fst (mirror_tree, [] :: event list))"
    by (rule same_crates_refl)
  from process_all_sim[OF this, where env=env and index=index and files="?files"]
  have t: "sum_list (map snd (fst ?A)) = sum_list (map snd (fst ?B))"
    and s: "sum_list (map fst (fst ?A)) = sum_list (map fst (fst ?B)) + write_failures (snd (snd ?B))"
    by (simp_all add: write_failures_def)
  have dry: "fst (snd ?A) = mirror_tree" "Written p \<notin> set (snd (snd ?A))"
    by (simp_all add: process_all_dry)
  have o: "organize_metadata env index_dir index mirror_dir mirror_tree True
            = ((sum_list (map fst (fst ?A)), sum_list (map snd (fst ?A))), snd ?A)"
    "organize_metadata env index_dir index mirror_dir mirror_tree False
            = ((sum_list (map fst (fst ?B)), sum_list (map snd (fst ?B))), snd ?B)"
    by (simp_all add: organize_metadata_def Let_def)
  have rec: "success_count (process_line env f name mirror_dir True line st)
              = success_count st
                + (if find_crate_file env name version mirror_dir (tree st) = None then 0 else 1)
            \<and> tree (process_line env f name mirror_dir True line st) = tree st"
    if "strip line \<noteq> [] \<and> startswith (strip line) (str ''{'') \<and> endswith (strip line) (str ''}'')
        \<and> json_loads env line = Some metadata \<and> get_vers metadata = Inr version \<and> truthy version"
  proof -
    from that have a: "strip line \<noteq> []" "startswith (strip line) (str ''{'')"
      "endswith (strip line) (str ''}'')" "json_loads env line = Some metadata"
      "get_vers metadata = Inr version" "truthy version" by blast+
    show ?thesis
      using process_line_dry_record(1)[OF a] by (simp add: process_line_dry_tree)
  qed
  show ?thesis
    unfolding o using t s dry rec by (simp add: prod_eq_iff)
qed

theorem simulation_counts_witness:
  "write_failures (snd (snd (organize_metadata example_runtime (str ''/index'') example_index
        (str ''/mirror'') example_mirror False))) = 0
   \<and> fst (organize_metadata example_runtime (str ''/index'') example_index
        (str ''/mirror'') example_mirror False) = (1, 1)
   \<and> fst (organize_metadata example_runtime (str ''/index'') example_index
        (str ''/mirror'') example_mirror True) = (1, 1)
   \<and> fst (snd (organize_metadata example_runtime (str ''/index'') example_index
        (str ''/mirror'') example_mirror True)) = example_mirror"
proof -
  have w: "write_failures (snd (snd (organize_metadata example_runtime (str ''/index'') example_index
        (str ''/mirror'') example_mirror False))) = 0"
    by (simp add: example_run write_failures_def)
  have d: "fst (organize_metadata example_runtime (str ''/index'') example_index
        (str ''/mirror'') example_mirror True) = (1, 1)"
    by (simp add: example_run)
  from simulation_counts[of example_runtime "str ''/index''" example_index "str ''/mirror''"
      example_mirror] w d
  show ?thesis by simp
qed

lemma example_readonly_process_line:
  "process_line example_readonly f (str ''foo'') (str ''/mirror'') False example_line
      \<lparr>success_count = s, total_count = n, tree = example_mirror, events = es\<rparr>
   = \<lparr>success_count = s, total_count = n + 1, tree = example_mirror,
      events = es @ [ProcessingError (str ''foo'') OSError]\<rparr>"
  "process_line example_readonly f (str ''foo'') (str ''/mirror'') True example_line
      \<lparr>success_count = s, total_count = n, tree = example_mirror, events = es\<rparr>
   = \<lparr>success_count = s + 1, total_count = n + 1, tree = example_mirror, events = es\<rparr>"
  "process_line example_readonly f name (str ''/mirror'') dry_run example_bad_line st
   = st\<lparr>events := events st @ [ParseError f example_bad_line]\<rparr>"
  "process_line example_readonly f name (str ''/mirror'') dry_run [10] st = st"
proof -
  have l: "json_loads example_readonly = json_loads example_runtime"
    by (simp add: example_readonly_def)
  have ne: "str ''1.0.0'' \<noteq> []" by (simp add: str_def)
  have fnd: "find_crate_file example_readonly (str ''foo'') (JStr (str ''1.0.0'')) (str ''/mirror'') example_mirror
     = Some (str ''/mirror'', [str ''F'', str ''FM-FP'', str ''foo-1.0.0.crate''])"
    using example_find by (simp add: find_crate_file_def format_value_def)
  have w: "write_json example_readonly p m i t = Inl OSError" for p m i t
    by (simp add: write_json_def example_readonly_def)
  show "process_line example_readonly f (str ''foo'') (str ''/mirror'') False example_line
      \<lparr>success_count = s, total_count = n, tree = example_mirror, events = es\<rparr>
   = \<lparr>success_count = s, total_count = n + 1, tree = example_mirror,
      events = es @ [ProcessingError (str ''foo'') OSError]\<rparr>"
    by (simp add: process_line_def l example_loads example_filter example_vers fnd ne w Let_def)
  show "process_line example_readonly f (str ''foo'') (str ''/mirror'') True example_line
      \<lparr>success_count = s, total_count = n, tree = example_mirror, events = es\<rparr>
   = \<lparr>success_count = s + 1, total_count = n + 1, tree = example_mirror, events = es\<rparr>"
    by (simp add: process_line_def l example_loads example_filter example_vers fnd ne Let_def)
  show "process_line example_readonly f name (str ''/mirror'') dry_run example_bad_line st
   = st\<lparr>events := events st @ [ParseError f example_bad_line]\<rparr>"
    by (simp add: process_line_def l example_loads example_filter)
  show "process_line example_readonly f name (str ''/mirror'') dry_run [10] st = st"
    by (simp add: process_line_def example_filter)
qed

text \<open>Claim C7 as stated fails when a write fails: with a mirror the operating system
  does not let the run write to, the simulation counts one success and the normal run
  none.\<close>

theorem simulation_counts_counterexample:
  "fst (organize_metadata example_readonly (str ''/index'') example_index
        (str ''/mirror'') example_mirror True) = (1, 1)
   \<and> fst (organize_metadata example_readonly (str ''/index'') example_index
        (str ''/mirror'') example_mirror False) = (0, 1)
   \<and> fst (fst (organize_metadata example_readonly (str ''/index'') example_index
        (str ''/mirror'') example_mirror False))
     \<noteq> fst (fst (organize_metadata example_readonly (str ''/index'') example_index
        (str ''/mirror'') example_mirror True))"
proof -
  have b: "basename (str ''/index'', [str ''3'', str ''f'', str ''foo'']) = str ''foo''"
    and nb: "str ''foo'' \<notin> set [str ''.git'', str ''config.json'']"
    and l: "lookup [str ''3'', str ''f'', str ''foo''] example_index
        = Some (File (Some [example_bad_line, example_line, [10]]))"
    by (simp_all add: basename_def example_index_def str_def)
  have "process_metadata_file example_readonly example_index
      ((str ''/index'', [str ''3'', str ''f'', str ''foo'']), str ''/mirror'', False) (example_mirror, [])
   = ((0, 1), example_mirror,
      [ParseError (str ''/index'', [str ''3'', str ''f'', str ''foo'']) example_bad_line,
       ProcessingError (str ''foo'') OSError])"
    using nb
    by (simp add: process_metadata_file_def b l os_path_isdir_def Let_def process_lines_def
        example_readonly_process_line del: set_simps lookup.simps)
  moreover have "process_metadata_file example_readonly example_index
      ((str ''/index'', [str ''3'', str ''f'', str ''foo'']), str ''/mirror'', True) (example_mirror, [])
   = ((1, 1), example_mirror,
      [ParseError (str ''/index'', [str ''3'', str ''f'', str ''foo'']) example_bad_line])"
    using nb
    by (simp add: process_metadata_file_def b l os_path_isdir_def Let_def process_lines_def
        example_readonly_process_line del: set_simps lookup.simps)
  ultimately show ?thesis
    by (simp add: organize_metadata_def example_metadata_files Let_def)
qed

section \<open>Properties of the metadata indexer: the sidecar files\<close>

lemma modify_update_read_at:
  assumes "modify ns (\<lambda>es. Inr (AList.update name (File c) es)) t = Inr t'"
    and "case lookup (ns @ [name]) t of Some (Dir _) \<Rightarrow> False | _ \<Rightarrow> True"
  shows "read_at q t' = (if q = ns @ [name] then Some (Some c) else read_at q t)"
  using assms
proof (induction ns arbitrary: t t' q)
  case Nil
  then obtain es where t: "t = Dir es" and t': "t' = Dir (AList.update name (File c) es)"
    by (auto split: fsnode.splits)
  from Nil.prems(2) t have nd: "case map_of es name of Some (Dir _) \<Rightarrow> False | _ \<Rightarrow> True"
    by (auto split: option.splits)
  show ?case
  proof (cases q)
    case Nil
    with t t' show ?thesis by (simp add: read_at_def)
  next
    case (Cons k ks)
    show ?thesis
    proof (cases "k = name")
      case True
      with nd t t' Cons show ?thesis
        by (cases ks) (auto simp: read_at_def update_conv' split: option.splits fsnode.splits)
    next
      case False
      with t t' Cons show ?thesis by (simp add: read_at_def update_conv')
    qed
  qed
next
  case (Cons a ns)
  from modify_Dir[OF Cons.prems(1)] obtain es where t: "t = Dir es" by blast
  from modify_Cons[OF Cons.prems(1)[unfolded t]] obtain c0 c1 where
    c: "map_of es a = Some (Dir c0)"
    and m: "modify ns (\<lambda>es. Inr (AList.update name (File c) es)) (Dir c0) = Inr (Dir c1)"
    and t': "t' = Dir (AList.update a (Dir c1) es)" by blast
  from Cons.prems(2) t c have nd: "case lookup (ns @ [name]) (Dir c0) of Some (Dir _) \<Rightarrow> False | _ \<Rightarrow> True"
    by simp
  note ih = Cons.IH[OF m nd]
  show ?case
  proof (cases q)
    case Nil
    with t t' show ?thesis by (simp add: read_at_def)
  next
    case q: (Cons k ks)
    show ?thesis
    proof (cases "k = a")
      case True
      have "read_at (k # ks) t' = read_at ks (Dir c1)"
        using t' True by (simp add: read_at_def update_conv')
      moreover have "read_at (k # ks) t = read_at ks (Dir c0)"
        using t c True by (simp add: read_at_def)
      ultimately show ?thesis using ih[of ks] q True by simp
    next
      case False
      with t t' q show ?thesis by (simp add: read_at_def update_conv')
    qed
  qed
qed

lemma write_json_read_at:
  assumes "write_json env (r0, ns @ [name]) m i t = Inr t'"
  shows "read_at q t' = (if q = ns @ [name] then Some (Some (JsonDump m i)) else read_at q t)"
proof -
  from assms have
    m: "modify ns (\<lambda>es. Inr (AList.update name (File (JsonDump m i)) es)) t = Inr t'"
    and nd: "\<not> os_path_isdir (r0, ns @ [name]) t"
    by (auto simp: write_json_def dirname_def basename_def split: if_splits)
  from nd have "case lookup (ns @ [name]) t of Some (Dir _) \<Rightarrow> False | _ \<Rightarrow> True"
    by (auto simp: os_path_isdir_def split: option.splits fsnode.splits)
  from modify_update_read_at[OF m this] show ?thesis .
qed

lemma os_path_isdir_read_at: "os_path_isdir p t \<longleftrightarrow> read_at (snd p) t = Some None"
  by (auto simp: os_path_isdir_def read_at_def split: option.splits fsnode.splits)

lemma write_json_isdir:
  assumes "write_json env (r0, ns @ [name]) m i t = Inr t'"
  shows "os_path_isdir q t' = os_path_isdir q t"
proof -
  from assms have "\<not> os_path_isdir (r0, ns @ [name]) t"
    by (auto simp: write_json_def split: if_splits)
  then show ?thesis
    by (simp add: os_path_isdir_read_at write_json_read_at[OF assms])
qed

lemma write_json_succeeds:
  assumes "os_permits env p" and "\<not> os_path_isdir p t" and "os_path_isdir (dirname p) t"
  shows "\<exists>t'. write_json env p m i t = Inr t'"
proof -
  from assms(3) obtain es where "lookup (snd (dirname p)) t = Some (Dir es)"
    by (auto simp: os_path_isdir_def split: option.splits fsnode.splits)
  from modify_succeeds[OF this] assms(1,2) show ?thesis
    by (simp add: write_json_def)
qed

lemma first_match_shape:
  "first_match x ts = Some p \<Longrightarrow> \<exists>root dirs files. (root, dirs, files) \<in> set ts \<and> p = os_path_join root x"
  by (induction ts rule: first_match.induct) (auto split: if_splits)

lemma find_crate_file_shape:
  assumes "find_crate_file env name version mirror_dir t = Some p"
  shows "fst p = mirror_dir
     \<and> basename p = name @ str ''-'' @ format_value env version @ str ''.crate''
     \<and> fst (dirname p) = mirror_dir"
proof -
  from assms obtain root dirs files where
    r: "(root, dirs, files) \<in> set (os_walk (mirror_dir, []) t)"
    and p: "p = os_path_join root (name @ str ''-'' @ format_value env version @ str ''.crate'')"
    unfolding find_crate_file_def Let_def using first_match_shape by blast
  from os_walk_root_fst(1)[OF r] have "fst root = mirror_dir" by simp
  with p show ?thesis by (simp add: os_path_join_def basename_def dirname_def)
qed

lemma process_line_effect:
  "(tree (process_line env f name mirror_dir dry_run line st) = tree st
      \<and> (\<exists>new. events (process_line env f name mirror_dir dry_run line st) = events st @ new
            \<and> (\<forall>p. Written p \<notin> set new)))
   \<or> (\<exists>ns nm m. write_json env (mirror_dir, ns @ [nm @ str ''.metadata.json'']) m 2 (tree st)
                   = Inr (tree (process_line env f name mirror_dir dry_run line st))
         \<and> events (process_line env f name mirror_dir dry_run line st)
             = events st @ [Written (mirror_dir, ns @ [nm @ str ''.metadata.json''])])"
proof (cases "strip line = [] \<or> \<not> (startswith (strip line) (str ''{'') \<and> endswith (strip line) (str ''}''))")
  case True
  then show ?thesis by (auto simp: process_line_def)
next
  case pass: False
  show ?thesis
  proof (cases "json_loads env line")
    case None
    with pass show ?thesis by (simp add: process_line_def)
  next
    case (Some metadata)
    show ?thesis
    proof (cases "get_vers metadata")
      case (Inl e)
      with pass Some show ?thesis by (simp add: process_line_def)
    next
      case (Inr version)
      show ?thesis
      proof (cases "truthy version")
        case False
        with pass Some Inr show ?thesis by (simp add: process_line_def)
      next
        case True
        show ?thesis
        proof (cases "find_crate_file env name version mirror_dir (tree st)")
          case None
          with pass Some Inr True show ?thesis by (simp add: process_line_def Let_def)
        next
          case found: (Some crate_file_path)
          let ?nm = "name @ str ''-'' @ format_value env version"
          let ?out = "os_path_join (dirname crate_file_path) (?nm @ str ''.metadata.json'')"
          from find_crate_file_shape[OF found] have
            out: "?out = (mirror_dir, snd (dirname crate_file_path) @ [?nm @ str ''.metadata.json''])"
            by (simp add: os_path_join_def prod_eq_iff)
          show ?thesis
          proof (cases dry_run)
            case True
            with pass Some Inr \<open>truthy version\<close> found show ?thesis
              by (simp add: process_line_def Let_def)
          next
            case False
            show ?thesis
            proof (cases "write_json env ?out metadata 2 (tree st)")
              case (Inl e)
              with pass Some Inr \<open>truthy version\<close> found False show ?thesis
                by (simp add: process_line_def Let_def)
            next
              case w: (Inr mirror')
              have "tree (process_line env f name mirror_dir dry_run line st) = mirror'"
                and "events (process_line env f name mirror_dir dry_run line st)
                      = events st @ [Written ?out]"
                using pass Some Inr \<open>truthy version\<close> found False w
                by (simp_all add: process_line_def Let_def)
              with w out have "write_json env (mirror_dir, snd (dirname crate_file_path) @ [?nm @ str ''.metadata.json''])
                      metadata 2 (tree st)
                    = Inr (tree (process_line env f name mirror_dir dry_run line st))
                  \<and> events (process_line env f name mirror_dir dry_run line st)
                    = events st @ [Written (mirror_dir, snd (dirname crate_file_path) @ [?nm @ str ''.metadata.json''])]"
                by simp
              then show ?thesis by blast
            qed
          qed
        qed
      qed
    qed
  qed
qed

lemma stable_process_line:
  assumes "stable env mirror_dir Q" and "Q (tree st, events st)"
  shows "Q (tree (process_line env f name mirror_dir dry_run line st),
            events (process_line env f name mirror_dir dry_run line st))"
proof -
  let ?st = "process_line env f name mirror_dir dry_run line st"
  from process_line_effect[of env f name mirror_dir dry_run line st]
  consider (quiet) new where "tree ?st = tree st" "events ?st = events st @ new"
      "\<forall>p. Written p \<notin> set new"
    | (wrote) ns nm m where
      "write_json env (mirror_dir, ns @ [nm @ str ''.metadata.json'']) m 2 (tree st) = Inr (tree ?st)"
      "events ?st = events st @ [Written (mirror_dir, ns @ [nm @ str ''.metadata.json''])]"
    by blast
  then show ?thesis
  proof cases
    case quiet
    from assms(1) have "\<And>t es new. Q (t, es) \<Longrightarrow> (\<forall>p. Written p \<notin> set new) \<Longrightarrow> Q (t, es @ new)"
      unfolding stable_def by blast
    from this[OF assms(2) quiet(3)] quiet(1,2) show ?thesis by simp
  next
    case wrote
    from assms(1) have "\<And>t es ns name m t'. Q (t, es) \<Longrightarrow>
           write_json env (mirror_dir, ns @ [name @ str ''.metadata.json'']) m 2 t = Inr t' \<Longrightarrow>
           Q (t', es @ [Written (mirror_dir, ns @ [name @ str ''.metadata.json''])])"
      unfolding stable_def by blast
    from this[OF assms(2) wrote(1)] wrote(2) show ?thesis by simp
  qed
qed

lemma stable_process_lines:
  assumes "stable env mirror_dir Q" and "Q (tree st, events st)"
  shows "Q (tree (process_lines env f name mirror_dir dry_run ls st),
            events (process_lines env f name mirror_dir dry_run ls st))"
  using assms(2) unfolding process_lines_def
  by (induction ls arbitrary: st) (simp_all add: stable_process_line[OF assms(1)])

lemma process_metadata_file_cases:
  obtains (skipped) "process_metadata_file env index (f, mirror_dir, dry_run) ml = ((0, 0), ml)"
  | (unreadable) "process_metadata_file env index (f, mirror_dir, dry_run) ml
        = ((0, 0), fst ml, snd ml @ [FileError f])"
  | (processed) ls where "lookup (snd f) index = Some (File (Some ls))"
      "basename f \<notin> set [str ''.git'', str ''config.json'']"
      "process_metadata_file env index (f, mirror_dir, dry_run) ml
        = (let st = process_lines env f (basename f) mirror_dir dry_run ls
                      \<lparr>success_count = 0, total_count = 0, tree = fst ml, events = snd ml\<rparr>
           in ((success_count st, total_count st), tree st, events st))"
proof (cases "basename f \<in> set [str ''.git'', str ''config.json''] \<or> os_path_isdir f index")
  case True
  then have "process_metadata_file env index (f, mirror_dir, dry_run) ml = ((0, 0), ml)"
    by (auto simp: process_metadata_file_def Let_def)
  then show ?thesis by (rule skipped)
next
  case False
  show ?thesis
  proof (cases "\<exists>ls. lookup (snd f) index = Some (File (Some ls))")
    case True
    then obtain ls where ls: "lookup (snd f) index = Some (File (Some ls))" by blast
    show ?thesis
    proof (rule processed[OF ls])
      show "basename f \<notin> set [str ''.git'', str ''config.json'']" using False by blast
      show "process_metadata_file env index (f, mirror_dir, dry_run) ml
        = (let st = process_lines env f (basename f) mirror_dir dry_run ls
                      \<lparr>success_count = 0, total_count = 0, tree = fst ml, events = snd ml\<rparr>
           in ((success_count st, total_count st), tree st, events st))"
        using False ls by (simp add: process_metadata_file_def Let_def del: set_simps)
    qed
  next
    case nf: False
    have "process_metadata_file env index (f, mirror_dir, dry_run) ml
        = ((0, 0), fst ml, snd ml @ [FileError f])"
    proof (cases "lookup (snd f) index")
      case None
      with False show ?thesis by (simp add: process_metadata_file_def Let_def del: set_simps)
    next
      case (Some node)
      show ?thesis
      proof (cases node)
        case (File c)
        with nf Some have "c = None" by (cases c) auto
        with False Some File show ?thesis
          by (simp add: process_metadata_file_def Let_def del: set_simps)
      next
        case (Dir es)
        with False Some show ?thesis
          by (simp add: process_metadata_file_def Let_def os_path_isdir_def del: set_simps)
      qed
    qed
    then show ?thesis by (rule unreadable)
  qed
qed

lemma stable_process_metadata_file:
  assumes "stable env mirror_dir Q" and "Q ml"
  shows "Q (snd (process_metadata_file env index (f, mirror_dir, dry_run) ml))"
proof (cases rule: process_metadata_file_cases[of env index f mirror_dir dry_run ml])
  case skipped
  with assms(2) show ?thesis by simp
next
  case unreadable
  from assms(1) have "\<And>t es new. Q (t, es) \<Longrightarrow> (\<forall>p. Written p \<notin> set new) \<Longrightarrow> Q (t, es @ new)"
    unfolding stable_def by blast
  from this[of "fst ml" "snd ml" "[FileError f]"] assms(2) have "Q (fst ml, snd ml @ [FileError f])"
    by simp
  with unreadable show ?thesis by simp
next
  case (processed ls)
  let ?st0 = "\<lparr>success_count = 0, total_count = 0, tree = fst ml, events = snd ml\<rparr>"
  have "Q (tree ?st0, events ?st0)" using assms(2) by simp
  from stable_process_lines[OF assms(1) this, of f "basename f" dry_run ls] processed(3)
  show ?thesis by (simp add: Let_def)
qed

lemma stable_process_all:
  assumes "stable env mirror_dir Q" and "Q ml"
  shows "Q (snd (process_all env index mirror_dir dry_run files ml))"
  using assms(2)
  by (induction files arbitrary: ml) (simp_all add: Let_def stable_process_metadata_file[OF assms(1)])

lemma process_all_append:
  "snd (process_all env index mirror_dir dry_run (xs @ ys) ml)
     = snd (process_all env index mirror_dir dry_run ys
              (snd (process_all env index mirror_dir dry_run xs ml)))"
  by (induction xs arbitrary: ml) (simp_all add: Let_def)

lemma count_list_no_written:
  "\<forall>p. Written p \<notin> set new \<Longrightarrow> count_list new (Written out) = 0"
  by (cases out) (simp add: count_list_0_iff)

lemma stableI:
  assumes "\<And>t es new. Q (t, es) \<Longrightarrow> (\<forall>p. Written p \<notin> set new) \<Longrightarrow> Q (t, es @ new)"
    and "\<And>t es ns name m t'. Q (t, es) \<Longrightarrow>
           write_json env (mirror_dir, ns @ [name @ str ''.metadata.json'']) m 2 t = Inr t' \<Longrightarrow>
           Q (t', es @ [Written (mirror_dir, ns @ [name @ str ''.metadata.json''])])"
  shows "stable env mirror_dir Q"
  unfolding stable_def using assms by blast

lemma process_line_writes:
  assumes "strip line \<noteq> []" and "startswith (strip line) (str ''{'')"
    and "endswith (strip line) (str ''}'')" and "json_loads env line = Some metadata"
    and "get_vers metadata = Inr (JStr v)" and "v \<noteq> []"
    and "find_crate_file env name (JStr v) mirror_dir (tree st) = Some crate_file_path"
    and "out = os_path_join (dirname crate_file_path) (name @ str ''-'' @ v @ str ''.metadata.json'')"
    and "write_json env out metadata 2 (tree st) = Inr t'"
  shows "process_line env f name mirror_dir False line st
           = st\<lparr>total_count := total_count st + 1, success_count := success_count st + 1,
                tree := t', events := events st @ [Written out]\<rparr>"
  using assms by (simp add: process_line_def Let_def format_value_def)

lemma sidecar_after_run:
  assumes enumerated: "f \<in> set files"
    and readable: "lookup (snd f) index = Some (File (Some lines))"
    and named: "basename f \<notin> set [str ''.git'', str ''config.json'']"
    and line: "line \<in> set lines"
    and pass: "strip line \<noteq> []" "startswith (strip line) (str ''{'')" "endswith (strip line) (str ''}'')"
    and parsed: "json_loads env line = Some metadata"
    and vers: "get_vers metadata = Inr (JStr v)" "v \<noteq> []"
    and found: "find_crate_file env (basename f) (JStr v) mirror_dir mirror_tree = Some crate_file_path"
    and dir: "os_path_isdir (dirname crate_file_path) mirror_tree"
    and out: "out = os_path_join (dirname crate_file_path)
                      (basename f @ str ''-'' @ v @ str ''.metadata.json'')"
    and permitted: "os_permits env out"
    and free: "\<not> os_path_isdir out mirror_tree"
  shows "Written out \<in> set (snd (snd (process_all env index mirror_dir False files (mirror_tree, []))))
     \<and> (\<exists>m. read_at (snd out) (fst (snd (process_all env index mirror_dir False files (mirror_tree, []))))
             = Some (Some (JsonDump m 2)))
     \<and> (count_list (snd (snd (process_all env index mirror_dir False files (mirror_tree, [])))) (Written out) = 1
          \<longrightarrow> read_at (snd out) (fst (snd (process_all env index mirror_dir False files (mirror_tree, []))))
             = Some (Some (JsonDump metadata 2)))"
proof -
  let ?I1 = "\<lambda>ml :: mirror_file fsnode \<times> event list. same_crates mirror_dir mirror_tree (fst ml)
      \<and> os_path_isdir (dirname crate_file_path) (fst ml) \<and> \<not> os_path_isdir out (fst ml)"
  let ?I2 = "\<lambda>ml. Written out \<in> set (snd ml)
      \<and> (\<exists>m. read_at (snd out) (fst ml) = Some (Some (JsonDump m 2)))
      \<and> (count_list (snd ml) (Written out) = 1
            \<longrightarrow> read_at (snd out) (fst ml) = Some (Some (JsonDump metadata 2)))"
  from find_crate_file_shape[OF found] have md: "fst (dirname crate_file_path) = mirror_dir" by simp
  define nm where "nm = basename f @ str ''-'' @ v"
  have out': "out = (mirror_dir, snd (dirname crate_file_path) @ [nm @ str ''.metadata.json''])"
    using out md by (simp add: os_path_join_def nm_def prod_eq_iff)
  have s1: "stable env mirror_dir ?I1"
  proof (rule stableI)
    fix t and es new :: "event list"
    assume "?I1 (t, es)"
    then show "?I1 (t, es @ new)" by simp
  next
    fix t ns name m t' and es :: "event list"
    assume i: "?I1 (t, es)"
      and w: "write_json env (mirror_dir, ns @ [name @ str ''.metadata.json'']) m 2 t = Inr t'"
    have "same_crates mirror_dir t t'"
      using write_json_same_crates[of env "(mirror_dir, ns)" name m 2 t t'] w
      by (simp add: os_path_join_def)
    with i have "same_crates mirror_dir mirror_tree t'" using same_crates_trans by auto
    with i show "?I1 (t', es @ [Written (mirror_dir, ns @ [name @ str ''.metadata.json''])])"
      by (simp add: write_json_isdir[OF w])
  qed
  have s2: "stable env mirror_dir ?I2"
  proof (rule stableI)
    fix t and es new :: "event list"
    assume i: "?I2 (t, es)" and n: "\<forall>p. Written p \<notin> set new"
    from count_list_no_written[OF n] have "count_list new (Written out) = 0" .
    with i show "?I2 (t, es @ new)" by simp
  next
    fix t ns name m t' and es :: "event list"
    assume i: "?I2 (t, es)"
      and w: "write_json env (mirror_dir, ns @ [name @ str ''.metadata.json'']) m 2 t = Inr t'"
    let ?p = "(mirror_dir, ns @ [name @ str ''.metadata.json''])"
    note r = write_json_read_at[OF w, of "snd out"]
    show "?I2 (t', es @ [Written ?p])"
    proof (cases "?p = out")
      case True
      from i have "count_list es (Written out) \<noteq> 0" by (simp add: count_list_0_iff)
      with True i r show ?thesis by auto
    next
      case False
      with out' have "snd out \<noteq> ns @ [name @ str ''.metadata.json'']" by auto
      with False i r show ?thesis by auto
    qed
  qed
  from enumerated obtain fs1 fs2 where files: "files = fs1 @ f # fs2" by (auto simp: in_set_conv_decomp)
  from line obtain ls1 ls2 where lines: "lines = ls1 @ line # ls2" by (auto simp: in_set_conv_decomp)
  let ?ml1 = "snd (process_all env index mirror_dir False fs1 (mirror_tree, []))"
  have i1: "?I1 ?ml1"
    using dir free by (intro stable_process_all[OF s1]) (simp add: same_crates_refl)
  let ?st0 = "\<lparr>success_count = 0, total_count = 0, tree = fst ?ml1, events = snd ?ml1\<rparr>"
  let ?st1 = "process_lines env f (basename f) mirror_dir False ls1 ?st0"
  let ?st2 = "process_line env f (basename f) mirror_dir False line ?st1"
  let ?st3 = "process_lines env f (basename f) mirror_dir False ls2 ?st2"
  have "?I1 (tree ?st0, events ?st0)" using i1 by simp
  from stable_process_lines[OF s1 this, of f "basename f" False ls1]
  have i1': "?I1 (tree ?st1, events ?st1)" .
  then have fnd: "find_crate_file env (basename f) (JStr v) mirror_dir (tree ?st1) = Some crate_file_path"
    using found same_crates_find[of mirror_dir mirror_tree "tree ?st1"] by simp
  from i1' have "os_path_isdir (dirname out) (tree ?st1)" "\<not> os_path_isdir out (tree ?st1)"
    using out by (simp_all add: dirname_join)
  from write_json_succeeds[OF permitted this(2,1)] obtain t' where
    w: "write_json env out metadata 2 (tree ?st1) = Inr t'" by blast
  from process_line_writes[OF pass parsed vers fnd out w]
  have st2: "tree ?st2 = t'" "events ?st2 = events ?st1 @ [Written out]" by simp_all
  from w have "read_at (snd out) t' = Some (Some (JsonDump metadata 2))"
    using write_json_read_at[of env mirror_dir "snd (dirname crate_file_path)"
        "nm @ str ''.metadata.json''" metadata 2 "tree ?st1" t' "snd out"]
    unfolding out' by simp
  with st2 have "?I2 (tree ?st2, events ?st2)" by simp
  from stable_process_lines[OF s2 this, of f "basename f" False ls2]
  have i2: "?I2 (tree ?st3, events ?st3)" .
  have "\<not> os_path_isdir f index" using readable by (simp add: os_path_isdir_def)
  with readable named have pf: "snd (process_metadata_file env index (f, mirror_dir, False) ?ml1)
      = (tree ?st3, events ?st3)"
    by (simp add: process_metadata_file_def Let_def lines process_lines_append process_lines_Cons
        del: set_simps)
  have "snd (process_all env index mirror_dir False files (mirror_tree, []))
      = snd (process_all env index mirror_dir False fs2 (tree ?st3, events ?st3))"
    unfolding files process_all_append using pf by (simp add: Let_def)
  moreover have "?I2 (snd (process_all env index mirror_dir False fs2 (tree ?st3, events ?st3)))"
    using i2 by (intro stable_process_all[OF s2])
  ultimately show ?thesis by simp
qed

text \<open>
  Claim C6, as amended. Take an index file that the walk collects and that can be read,
  not named \<^verbatim>\<open>.git\<close>, and a line of it that passes the brace test and parses to a record
  whose \<^verbatim>\<open>vers\<close> is a non-empty string \<open>v\<close>. Let the search find the archive
  \<^verbatim>\<open><packageName>-v.crate\<close> (the first one in walk order), in a directory of the mirror,
  and let the operating system permit writing the sidecar, whose name no directory
  bears. Then the non-simulated run writes \<^verbatim>\<open><packageName>-v.metadata.json\<close> in the
  directory of that archive; after the run the file is there and holds a record dumped
  with indent 2, the source record itself when the run wrote that path once.
\<close>

theorem sidecar_written_beside_first_archive:
  assumes "f \<in> set (metadata_files index_dir index)" and "basename f \<noteq> str ''.git''"
    and "lookup (snd f) index = Some (File (Some lines))" and "line \<in> set lines"
    and "strip line \<noteq> []" and "startswith (strip line) (str ''{'')"
    and "endswith (strip line) (str ''}'')"
    and "json_loads env line = Some metadata"
    and "get_vers metadata = Inr (JStr v)" and "v \<noteq> []"
    and "find_crate_file env (basename f) (JStr v) mirror_dir mirror_tree = Some crate_file_path"
    and "os_path_isdir (dirname crate_file_path) mirror_tree"
    and "out = os_path_join (dirname crate_file_path)
                 (basename f @ str ''-'' @ v @ str ''.metadata.json'')"
    and "os_permits env out" and "\<not> os_path_isdir out mirror_tree"
  shows "Written out
           \<in> set (snd (snd (organize_metadata env index_dir index mirror_dir mirror_tree False)))
     \<and> (\<exists>m. read_at (snd out)
               (fst (snd (organize_metadata env index_dir index mirror_dir mirror_tree False)))
             = Some (Some (JsonDump m 2)))
     \<and> (count_list (snd (snd (organize_metadata env index_dir index mirror_dir mirror_tree False)))
           (Written out) = 1
          \<longrightarrow> read_at (snd out)
               (fst (snd (organize_metadata env index_dir index mirror_dir mirror_tree False)))
             = Some (Some (JsonDump metadata 2)))
     \<and> dirname out = dirname crate_file_path
     \<and> basename out = basename f @ str ''-'' @ v @ str ''.metadata.json''
     \<and> basename crate_file_path = basename f @ str ''-'' @ v @ str ''.crate''"
proof -
  from assms(1) have "basename f \<noteq> str ''config.json''"
    unfolding metadata_files_def using collect_name by blast
  with assms(2) have named: "basename f \<notin> set [str ''.git'', str ''config.json'']" by simp
  note run = sidecar_after_run[OF assms(1,3) named assms(4-15)]
  have "basename crate_file_path = basename f @ str ''-'' @ v @ str ''.crate''"
    using find_crate_file_shape[OF assms(11)] by (simp add: format_value_def)
  moreover have "dirname out = dirname crate_file_path"
    and "basename out = basename f @ str ''-'' @ v @ str ''.metadata.json''"
    using assms(13) by (simp_all add: dirname_join basename_join)
  ultimately show ?thesis
    using run by (simp add: organize_metadata_def Let_def)
qed

lemma example_basics:
  "(str ''/index'', [str ''3'', str ''f'', str ''foo'']) \<in> set (metadata_files (str ''/index'') example_index)"
  "basename (str ''/index'', [str ''3'', str ''f'', str ''foo'']) = str ''foo''"
  "str ''foo'' \<noteq> str ''.git''" "str ''1.0.0'' \<noteq> []"
  "lookup (snd (str ''/index'', [str ''3'', str ''f'', str ''foo''])) example_index
     = Some (File (Some [example_bad_line, example_line, [10]]))"
  "example_line \<in> set [example_bad_line, example_line, [10]]"
  "os_permits example_runtime p"
proof -
  show "(str ''/index'', [str ''3'', str ''f'', str ''foo'']) \<in> set (metadata_files (str ''/index'') example_index)"
    by (simp add: example_metadata_files)
  show "basename (str ''/index'', [str ''3'', str ''f'', str ''foo'']) = str ''foo''"
    by (simp add: basename_def)
  show "str ''foo'' \<noteq> str ''.git''" "str ''1.0.0'' \<noteq> []"
    by (simp_all add: str_def)
  show "lookup (snd (str ''/index'', [str ''3'', str ''f'', str ''foo''])) example_index
     = Some (File (Some [example_bad_line, example_line, [10]]))"
    by (simp add: example_index_def str_def)
  show "example_line \<in> set [example_bad_line, example_line, [10]]" by simp
  show "os_permits example_runtime p" by (simp add: example_runtime_def)
qed

theorem sidecar_written_beside_first_archive_witness:
  "read_at [str ''F'', str ''FM-FP'', str ''foo-1.0.0.metadata.json'']
      (fst (snd (organize_metadata example_runtime (str ''/index'') example_index
                   (str ''/mirror'') example_mirror False)))
     = Some (Some (JsonDump example_record 2))
   \<and> find_crate_file example_runtime (str ''foo'') (JStr (str ''1.0.0'')) (str ''/mirror'') example_mirror
     = Some (str ''/mirror'', [str ''F'', str ''FM-FP'', str ''foo-1.0.0.crate''])"
proof -
  let ?f = "(str ''/index'', [str ''3'', str ''f'', str ''foo''])"
  let ?cp = "(str ''/mirror'', [str ''F'', str ''FM-FP'', str ''foo-1.0.0.crate''])"
  let ?out = "(str ''/mirror'', [str ''F'', str ''FM-FP'', str ''foo-1.0.0.metadata.json''])"
  have fnd: "find_crate_file example_runtime (basename ?f) (JStr (str ''1.0.0'')) (str ''/mirror'')
      example_mirror = Some ?cp"
    using example_find by (simp add: example_basics(2))
  have dir: "os_path_isdir (dirname ?cp) example_mirror"
    and free: "\<not> os_path_isdir ?out example_mirror"
    by (simp_all add: os_path_isdir_def dirname_def example_mirror_def str_def)
  have out: "?out = os_path_join (dirname ?cp)
      (basename ?f @ str ''-'' @ str ''1.0.0'' @ str ''.metadata.json'')"
    by (simp add: os_path_join_def dirname_def basename_def str_def)
  have ne: "basename ?f \<noteq> str ''.git''" by (simp add: basename_def str_def)
  have once: "count_list (snd (snd (organize_metadata example_runtime (str ''/index'') example_index
                   (str ''/mirror'') example_mirror False))) (Written ?out) = 1"
    by (simp add: example_run)
  from sidecar_written_beside_first_archive[OF example_basics(1) ne example_basics(5,6)
      example_filter(1-3) example_loads(1) example_vers example_basics(4) fnd dir out
      example_basics(7) free] once
  have "read_at (snd ?out)
      (fst (snd (organize_metadata example_runtime (str ''/index'') example_index
                   (str ''/mirror'') example_mirror False)))
     = Some (Some (JsonDump example_record 2))" by blast
  then show ?thesis using example_find by simp
qed

text \<open>Claim C6 as stated fails for an archive that is not the first of its name in walk
  order: the example mirror holds \<^verbatim>\<open>foo-1.0.0.crate\<close> also in the directory \<^verbatim>\<open>dup\<close>, and
  after the run there is no sidecar beside it.\<close>

theorem sidecar_beside_every_archive_counterexample:
  "lookup [str ''3'', str ''f'', str ''foo''] example_index
     = Some (File (Some [example_bad_line, example_line, [10]]))
   \<and> json_loads example_runtime example_line = Some example_record
   \<and> get_vers example_record = Inr (JStr (str ''1.0.0''))
   \<and> lookup [str ''dup'', str ''foo-1.0.0.crate''] example_mirror = Some (File Blob)
   \<and> lookup [str ''dup'', str ''foo-1.0.0.metadata.json'']
        (fst (snd (organize_metadata example_runtime (str ''/index'') example_index
                     (str ''/mirror'') example_mirror False))) = None"
  by (simp add: example_run example_loads example_vers)
     (simp add: example_index_def example_mirror_def example_mirror_written_def str_def)

section \<open>Properties of the metadata indexer: running it again\<close>

lemma modify_needs_dir:
  "modify ns h t = Inr t' \<Longrightarrow> \<exists>es. lookup ns t = Some (Dir es)"
proof (induction ns arbitrary: t t')
  case Nil
  then show ?case by (auto split: fsnode.splits)
next
  case (Cons a ns)
  from modify_Dir[OF Cons.prems] obtain es where t: "t = Dir es" by blast
  from modify_Cons[OF Cons.prems[unfolded t]] obtain c c' where
    "map_of es a = Some (Dir c)" "modify ns h (Dir c) = Inr (Dir c')" by blast
  with Cons.IH t show ?case by simp
qed

lemma write_json_ok_iff:
  "(\<exists>t'. write_json env p m i t = Inr t')
     \<longleftrightarrow> os_permits env p \<and> \<not> os_path_isdir p t \<and> os_path_isdir (dirname p) t"
proof
  assume "\<exists>t'. write_json env p m i t = Inr t'"
  then obtain t' where w: "write_json env p m i t = Inr t'" by blast
  then have p: "os_permits env p" "\<not> os_path_isdir p t"
    and "modify (snd (dirname p))
           (\<lambda>es. Inr (AList.update (basename p) (File (JsonDump m i)) es)) t = Inr t'"
    by (auto simp: write_json_def split: if_splits)
  from modify_needs_dir[OF this(3)] have "os_path_isdir (dirname p) t"
    by (auto simp: os_path_isdir_def)
  with p show "os_permits env p \<and> \<not> os_path_isdir p t \<and> os_path_isdir (dirname p) t" by simp
next
  assume "os_permits env p \<and> \<not> os_path_isdir p t \<and> os_path_isdir (dirname p) t"
  then show "\<exists>t'. write_json env p m i t = Inr t'" using write_json_succeeds by blast
qed

lemma same_crates_sym: "same_crates mirror_dir t u \<Longrightarrow> same_crates mirror_dir u t"
  by (simp add: same_crates_def)

lemma twinI:
  assumes "es = es'" and "same_crates mirror_dir t t'"
    and "\<And>q. os_path_isdir q t \<longleftrightarrow> os_path_isdir q t'"
  shows "twin mirror_dir (t, es) (t', es')"
  using assms by (simp add: twin_def)

lemma process_line_twin:
  assumes tw: "twin mirror_dir (tree a, events a) (tree b, events b)"
    and cnt: "success_count a = success_count b" "total_count a = total_count b"
  shows "twin mirror_dir
           (tree (process_line env f name mirror_dir False line a),
            events (process_line env f name mirror_dir False line a))
           (tree (process_line env f name mirror_dir False line b),
            events (process_line env f name mirror_dir False line b))
     \<and> success_count (process_line env f name mirror_dir False line a)
         = success_count (process_line env f name mirror_dir False line b)
     \<and> total_count (process_line env f name mirror_dir False line a)
         = total_count (process_line env f name mirror_dir False line b)"
proof -
  from tw have ev: "events a = events b"
    and sc: "same_crates mirror_dir (tree a) (tree b)"
    and dirs0: "\<forall>q. os_path_isdir q (tree a) \<longleftrightarrow> os_path_isdir q (tree b)"
    unfolding twin_def by simp_all
  from dirs0 have dirs: "os_path_isdir q (tree a) \<longleftrightarrow> os_path_isdir q (tree b)" for q
    by blast
  have keep: "twin mirror_dir (tree a, events a @ new) (tree b, events b @ new)" for new
    using ev sc dirs by (intro twinI) simp_all
  show ?thesis
  proof (cases "strip line = [] \<or> \<not> (startswith (strip line) (str ''{'') \<and> endswith (strip line) (str ''}''))")
    case True
    with tw cnt show ?thesis by (auto simp: process_line_def)
  next
    case pass: False
    show ?thesis
    proof (cases "json_loads env line")
      case None
      with pass cnt keep show ?thesis by (simp add: process_line_def)
    next
      case (Some metadata)
      show ?thesis
      proof (cases "get_vers metadata")
        case (Inl e)
        with pass Some cnt keep show ?thesis by (simp add: process_line_def)
      next
        case (Inr version)
        show ?thesis
        proof (cases "truthy version")
          case False
          with pass Some Inr tw cnt show ?thesis by (simp add: process_line_def)
        next
          case True
          from sc have fe: "find_crate_file env name version mirror_dir (tree a)
              = find_crate_file env name version mirror_dir (tree b)" by (rule same_crates_find)
          show ?thesis
          proof (cases "find_crate_file env name version mirror_dir (tree b)")
            case None
            with pass Some Inr True fe cnt keep show ?thesis
              by (simp add: process_line_def Let_def)
          next
            case found: (Some crate_file_path)
            let ?nm = "name @ str ''-'' @ format_value env version"
            let ?out = "os_path_join (dirname crate_file_path) (?nm @ str ''.metadata.json'')"
            from find_crate_file_shape[OF found] have
              out: "?out = (mirror_dir, snd (dirname crate_file_path) @ [?nm @ str ''.metadata.json''])"
              by (simp add: os_path_join_def prod_eq_iff)
            have iff: "(\<exists>t'. write_json env ?out metadata 2 (tree a) = Inr t')
                \<longleftrightarrow> (\<exists>t'. write_json env ?out metadata 2 (tree b) = Inr t')"
              unfolding write_json_ok_iff using dirs by simp
            show ?thesis
            proof (cases "write_json env ?out metadata 2 (tree b)")
              case (Inl e)
              with iff obtain e' where ea: "write_json env ?out metadata 2 (tree a) = Inl e'"
                by (cases "write_json env ?out metadata 2 (tree a)") auto
              from Inl ea have "e = OSError" "e' = OSError" using write_json_error by blast+
              with pass Some Inr True fe found Inl ea cnt keep show ?thesis
                by (simp add: process_line_def Let_def)
            next
              case wb: (Inr tb)
              with iff obtain ta where wa: "write_json env ?out metadata 2 (tree a) = Inr ta"
                by blast
              have "same_crates mirror_dir (tree a) ta" "same_crates mirror_dir (tree b) tb"
                using write_json_same_crates[of env "dirname crate_file_path" ?nm metadata 2] wa wb
                by simp_all
              with sc have s': "same_crates mirror_dir ta tb"
                using same_crates_sym same_crates_trans by blast
              have d': "os_path_isdir q ta \<longleftrightarrow> os_path_isdir q tb" for q
                using write_json_isdir[OF wa[unfolded out]] write_json_isdir[OF wb[unfolded out]] dirs
                by simp
              have "twin mirror_dir (ta, events a @ [Written ?out]) (tb, events b @ [Written ?out])"
                using ev s' d' by (intro twinI) simp_all
              with pass Some Inr True fe found wa wb cnt show ?thesis
                by (simp add: process_line_def Let_def)
            qed
          qed
        qed
      qed
    qed
  qed
qed

lemma process_lines_twin:
  assumes "twin mirror_dir (tree a, events a) (tree b, events b)"
    and "success_count a = success_count b" and "total_count a = total_count b"
  shows "twin mirror_dir
           (tree (process_lines env f name mirror_dir False ls a),
            events (process_lines env f name mirror_dir False ls a))
           (tree (process_lines env f name mirror_dir False ls b),
            events (process_lines env f name mirror_dir False ls b))
     \<and> success_count (process_lines env f name mirror_dir False ls a)
         = success_count (process_lines env f name mirror_dir False ls b)
     \<and> total_count (process_lines env f name mirror_dir False ls a)
         = total_count (process_lines env f name mirror_dir False ls b)"
  using assms
proof (induction ls arbitrary: a b)
  case Nil
  then show ?case by (simp add: process_lines_def)
next
  case (Cons l ls)
  note step = process_line_twin[OF Cons.prems, of env f name l]
  from Cons.IH[OF step[THEN conjunct1] step[THEN conjunct2, THEN conjunct1]
      step[THEN conjunct2, THEN conjunct2]]
  show ?case by (simp add: process_lines_Cons)
qed

lemma process_metadata_file_twin:
  assumes "twin mirror_dir ml ml'"
  shows "fst (process_metadata_file env index (f, mirror_dir, False) ml)
           = fst (process_metadata_file env index (f, mirror_dir, False) ml')
     \<and> twin mirror_dir (snd (process_metadata_file env index (f, mirror_dir, False) ml))
                        (snd (process_metadata_file env index (f, mirror_dir, False) ml'))"
proof -
  let ?a = "\<lparr>success_count = 0, total_count = 0, tree = fst ml, events = snd ml\<rparr>"
  let ?b = "\<lparr>success_count = 0, total_count = 0, tree = fst ml', events = snd ml'\<rparr>"
  have lines: "twin mirror_dir
           (tree (process_lines env f (basename f) mirror_dir False ls ?a),
            events (process_lines env f (basename f) mirror_dir False ls ?a))
           (tree (process_lines env f (basename f) mirror_dir False ls ?b),
            events (process_lines env f (basename f) mirror_dir False ls ?b))
     \<and> success_count (process_lines env f (basename f) mirror_dir False ls ?a)
         = success_count (process_lines env f (basename f) mirror_dir False ls ?b)
     \<and> total_count (process_lines env f (basename f) mirror_dir False ls ?a)
         = total_count (process_lines env f (basename f) mirror_dir False ls ?b)" for ls
    by (rule process_lines_twin) (use assms in simp_all)
  have err: "twin mirror_dir (fst ml, snd ml @ new) (fst ml', snd ml' @ new)" for new
    using assms by (simp add: twin_def)
  show ?thesis
  proof (cases "basename f \<in> set [str ''.git'', str ''config.json''] \<or> os_path_isdir f index")
    case True
    with assms show ?thesis by (auto simp: process_metadata_file_def)
  next
    case False
    show ?thesis
    proof (cases "\<exists>ls. lookup (snd f) index = Some (File (Some ls))")
      case True
      then obtain ls where "lookup (snd f) index = Some (File (Some ls))" by blast
      with False lines[of ls] show ?thesis
        by (simp add: process_metadata_file_def Let_def)
    next
      case unreadable: False
      with False err[of "[FileError f]"] show ?thesis
        by (auto simp: process_metadata_file_def Let_def split: option.splits fsnode.splits)
    qed
  qed
qed

lemma process_all_twin:
  assumes "twin mirror_dir ml ml'"
  shows "fst (process_all env index mirror_dir False files ml)
           = fst (process_all env index mirror_dir False files ml')
     \<and> twin mirror_dir (snd (process_all env index mirror_dir False files ml))
                        (snd (process_all env index mirror_dir False files ml'))"
  using assms
proof (induction files arbitrary: ml ml')
  case Nil
  then show ?case by simp
next
  case (Cons x xs)
  note step = process_metadata_file_twin[OF Cons.prems, of env index x]
  from Cons.IH[OF step[THEN conjunct2]] step[THEN conjunct1]
  show ?case by (simp add: Let_def)
qed

lemma run_keeps_shape:
  "same_crates mirror_dir mirror_tree
     (fst (snd (process_all env index mirror_dir dry_run files (mirror_tree, es))))
   \<and> (\<forall>q. os_path_isdir q mirror_tree
         \<longleftrightarrow> os_path_isdir q (fst (snd (process_all env index mirror_dir dry_run files (mirror_tree, es)))))"
proof -
  let ?Q = "\<lambda>ml :: mirror_file fsnode \<times> event list. same_crates mirror_dir mirror_tree (fst ml)
      \<and> (\<forall>q. os_path_isdir q mirror_tree \<longleftrightarrow> os_path_isdir q (fst ml))"
  have "stable env mirror_dir ?Q"
  proof (rule stableI)
    fix t and es new :: "event list"
    assume "?Q (t, es)"
    then show "?Q (t, es @ new)" by simp
  next
    fix t t' :: "mirror_file fsnode" and es :: "event list" and ns name m
    assume q: "?Q (t, es)"
      and w: "write_json env (mirror_dir, ns @ [name @ str ''.metadata.json'']) m 2 t = Inr t'"
    from w have "same_crates mirror_dir t t'"
      using write_json_same_crates[of env "(mirror_dir, ns)" name m 2 t t' mirror_dir]
      by (simp add: os_path_join_def)
    with q have "same_crates mirror_dir mirror_tree t'"
      using same_crates_trans[of mirror_dir mirror_tree t t'] by simp
    moreover have "os_path_isdir q t' = os_path_isdir q t" for q
      using w by (rule write_json_isdir)
    ultimately show "?Q (t', es @ [Written (mirror_dir, ns @ [name @ str ''.metadata.json''])])"
      using q by simp
  qed
  moreover have "?Q (mirror_tree, es)" by (simp add: same_crates_refl)
  ultimately have "?Q (snd (process_all env index mirror_dir dry_run files (mirror_tree, es)))"
    by (rule stable_process_all)
  then show ?thesis by simp
qed

lemma run_keeps_files:
  assumes "read_at q mirror_tree = Some (Some c)"
  shows "\<exists>c'. read_at q (fst (snd (process_all env index mirror_dir dry_run files (mirror_tree, es))))
           = Some (Some c')"
proof -
  let ?Q = "\<lambda>ml :: mirror_file fsnode \<times> event list. \<exists>c'. read_at q (fst ml) = Some (Some c')"
  have "stable env mirror_dir ?Q"
  proof (rule stableI)
    fix t and es new :: "event list"
    assume "?Q (t, es)"
    then show "?Q (t, es @ new)" by simp
  next
    fix t t' :: "mirror_file fsnode" and es :: "event list" and ns name m
    assume q: "?Q (t, es)"
      and w: "write_json env (mirror_dir, ns @ [name @ str ''.metadata.json'']) m 2 t = Inr t'"
    from write_json_read_at[OF w, of q] q
    show "?Q (t', es @ [Written (mirror_dir, ns @ [name @ str ''.metadata.json''])])"
      by auto
  qed
  moreover have "?Q (mirror_tree, es)" using assms by simp
  ultimately have "?Q (snd (process_all env index mirror_dir dry_run files (mirror_tree, es)))"
    by (rule stable_process_all)
  then show ?thesis by simp
qed

lemma run_written_present:
  assumes "Written p \<in> set (snd (snd (process_all env index mirror_dir dry_run files (mirror_tree, []))))"
  shows "\<exists>m. read_at (snd p) (fst (snd (process_all env index mirror_dir dry_run files (mirror_tree, []))))
           = Some (Some (JsonDump m 2))"
proof -
  let ?Q = "\<lambda>ml :: mirror_file fsnode \<times> event list.
      Written p \<in> set (snd ml) \<longrightarrow> (\<exists>m. read_at (snd p) (fst ml) = Some (Some (JsonDump m 2)))"
  have "stable env mirror_dir ?Q"
  proof (rule stableI)
    fix t and es new :: "event list"
    assume "?Q (t, es)" and "\<forall>p. Written p \<notin> set new"
    then have "?Q (t, es)" and "Written p \<notin> set new" by blast+
    then show "?Q (t, es @ new)" by simp
  next
    fix t t' :: "mirror_file fsnode" and es :: "event list" and ns name m
    assume q: "?Q (t, es)"
      and w: "write_json env (mirror_dir, ns @ [name @ str ''.metadata.json'']) m 2 t = Inr t'"
    from write_json_read_at[OF w, of "snd p"] q
    show "?Q (t', es @ [Written (mirror_dir, ns @ [name @ str ''.metadata.json''])])"
      by auto
  qed
  moreover have "?Q (mirror_tree, [])" by simp
  ultimately have "?Q (snd (process_all env index mirror_dir dry_run files (mirror_tree, [])))"
    by (rule stable_process_all)
  with assms show ?thesis by simp
qed

lemma organize_metadata_twin:
  assumes "twin mirror_dir (t, []) (t', [])"
  shows "fst (organize_metadata env index_dir index mirror_dir t False)
           = fst (organize_metadata env index_dir index mirror_dir t' False)"
    and "snd (snd (organize_metadata env index_dir index mirror_dir t False))
           = snd (snd (organize_metadata env index_dir index mirror_dir t' False))"
  using process_all_twin[OF assms, of env index "metadata_files index_dir index"]
  by (simp_all add: organize_metadata_def Let_def twin_def)

lemma rerun_twin:
  "twin mirror_dir (mirror_tree, [])
     (fst (snd (organize_metadata env index_dir index mirror_dir mirror_tree dry_run)), [])"
  using run_keeps_shape[of mirror_dir mirror_tree env index dry_run "metadata_files index_dir index" "[]"]
  by (simp add: organize_metadata_def Let_def twin_def)

text \<open>
  Claim C9, as amended. The indexer does not look for an existing sidecar: it opens the
  sidecar for writing at every record whose archive is found, in every non-simulated
  run. Running it again on the same index and on the mirror that the first run left,
  with the same parser and the same permissions, gives the counts and the log of the
  first run: a sidecar that the first run wrote is written again by the second, and
  holds a record dumped with indent 2 afterwards. No run deletes anything: a path of
  the mirror that held a file before the first run holds a file after each of the two.
\<close>

theorem rerun_rewrites_sidecars:
  "let first = organize_metadata env index_dir index mirror_dir mirror_tree False;
       second = organize_metadata env index_dir index mirror_dir (fst (snd first)) False
   in fst second = fst first \<and> snd (snd second) = snd (snd first)
      \<and> (Written p \<in> set (snd (snd first)) \<longrightarrow>
           Written p \<in> set (snd (snd second))
           \<and> (\<exists>m. read_at (snd p) (fst (snd second)) = Some (Some (JsonDump m 2))))
      \<and> (read_at q mirror_tree = Some (Some c) \<longrightarrow>
           (\<exists>c'. read_at q (fst (snd first)) = Some (Some c'))
           \<and> (\<exists>c'. read_at q (fst (snd second)) = Some (Some c')))"
proof -
  define first where "first = organize_metadata env index_dir index mirror_dir mirror_tree False"
  define second where "second = organize_metadata env index_dir index mirror_dir (fst (snd first)) False"
  have tw: "twin mirror_dir (mirror_tree, []) (fst (snd first), [])"
    unfolding first_def by (rule rerun_twin)
  from organize_metadata_twin[OF tw, of env index_dir index]
  have same: "fst second = fst first" "snd (snd second) = snd (snd first)"
    by (simp_all add: first_def second_def)
  have present: "\<exists>m. read_at (snd p) (fst (snd second)) = Some (Some (JsonDump m 2))"
    if "Written p \<in> set (snd (snd second))"
    using that run_written_present[of p env index mirror_dir False
        "metadata_files index_dir index" "fst (snd first)"]
    by (simp add: second_def organize_metadata_def Let_def)
  have kept: "(\<exists>c'. read_at q (fst (snd first)) = Some (Some c'))
        \<and> (\<exists>c'. read_at q (fst (snd second)) = Some (Some c'))"
    if r: "read_at q mirror_tree = Some (Some c)"
  proof -
    from run_keeps_files[OF r, of env index mirror_dir False "metadata_files index_dir index" "[]"]
    obtain c1 where c1: "read_at q (fst (snd first)) = Some (Some c1)"
      by (auto simp: first_def organize_metadata_def Let_def)
    from run_keeps_files[OF c1, of env index mirror_dir False "metadata_files index_dir index" "[]"]
    have "\<exists>c'. read_at q (fst (snd second)) = Some (Some c')"
      by (simp add: second_def organize_metadata_def Let_def)
    with c1 show ?thesis by blast
  qed
  from same present kept show ?thesis
    unfolding Let_def first_def[symmetric] second_def[symmetric] by simp
qed

lemma example_stale_write:
  "write_json example_runtime (str ''/mirror'', [str ''F'', str ''FM-FP'', str ''foo-1.0.0.metadata.json''])
      (JObj []) 2 example_mirror = Inr example_mirror_stale"
  by (simp add: write_json_def example_runtime_def os_path_isdir_def example_mirror_def
      example_mirror_stale_def dirname_def basename_def str_def)

lemma example_stale_twin:
  "twin (str ''/mirror'') (example_mirror, []) (example_mirror_stale, [])"
proof (rule twinI)
  show "([] :: event list) = []" by simp
  have w: "write_json example_runtime
      (os_path_join (str ''/mirror'', [str ''F'', str ''FM-FP'']) (str ''foo-1.0.0'' @ str ''.metadata.json''))
      (JObj []) 2 example_mirror = Inr example_mirror_stale"
    using example_stale_write by (simp add: os_path_join_def str_def)
  then show "same_crates (str ''/mirror'') example_mirror example_mirror_stale"
    by (rule write_json_same_crates)
  show "os_path_isdir q example_mirror \<longleftrightarrow> os_path_isdir q example_mirror_stale" for q
    using write_json_isdir[of example_runtime "str ''/mirror''" "[str ''F'', str ''FM-FP'']"
        "str ''foo-1.0.0.metadata.json''" "JObj []" 2 example_mirror example_mirror_stale q]
      example_stale_write
    by simp
qed

lemma example_stale_run:
  "snd (snd (organize_metadata example_runtime (str ''/index'') example_index (str ''/mirror'')
               example_mirror_stale False))
   = [ParseError (str ''/index'', [str ''3'', str ''f'', str ''foo'']) example_bad_line,
      Written (str ''/mirror'', [str ''F'', str ''FM-FP'', str ''foo-1.0.0.metadata.json''])]"
  using organize_metadata_twin(2)[OF example_stale_twin, of example_runtime "str ''/index''" example_index]
  by (simp add: example_run)

lemma example_rerun:
  "fst (organize_metadata example_runtime (str ''/index'') example_index (str ''/mirror'')
          example_mirror_written False) = (1, 1)"
  "snd (snd (organize_metadata example_runtime (str ''/index'') example_index (str ''/mirror'')
               example_mirror_written False))
   = [ParseError (str ''/index'', [str ''3'', str ''f'', str ''foo'']) example_bad_line,
      Written (str ''/mirror'', [str ''F'', str ''FM-FP'', str ''foo-1.0.0.metadata.json''])]"
proof -
  have tw: "twin (str ''/mirror'') (example_mirror, []) (example_mirror_written, [])"
    using rerun_twin[of "str ''/mirror''" example_mirror example_runtime "str ''/index''"
        example_index False]
    by (simp add: example_run)
  from organize_metadata_twin[OF tw, of example_runtime "str ''/index''" example_index]
  show "fst (organize_metadata example_runtime (str ''/index'') example_index (str ''/mirror'')
          example_mirror_written False) = (1, 1)"
    and "snd (snd (organize_metadata example_runtime (str ''/index'') example_index (str ''/mirror'')
               example_mirror_written False))
   = [ParseError (str ''/index'', [str ''3'', str ''f'', str ''foo'']) example_bad_line,
      Written (str ''/mirror'', [str ''F'', str ''FM-FP'', str ''foo-1.0.0.metadata.json''])]"
    by (simp_all add: example_run)
qed

lemma example_stale_refreshed:
  "read_at [str ''F'', str ''FM-FP'', str ''foo-1.0.0.metadata.json'']
      (fst (snd (organize_metadata example_runtime (str ''/index'') example_index
                   (str ''/mirror'') example_mirror_stale False)))
     = Some (Some (JsonDump example_record 2))"
proof -
  let ?f = "(str ''/index'', [str ''3'', str ''f'', str ''foo''])"
  let ?cp = "(str ''/mirror'', [str ''F'', str ''FM-FP'', str ''foo-1.0.0.crate''])"
  let ?out = "(str ''/mirror'', [str ''F'', str ''FM-FP'', str ''foo-1.0.0.metadata.json''])"
  from example_stale_twin have "same_crates (str ''/mirror'') example_mirror example_mirror_stale"
    by (simp add: twin_def)
  from same_crates_find[OF this, of example_runtime "str ''foo''" "JStr (str ''1.0.0'')"]
  have fnd: "find_crate_file example_runtime (basename ?f) (JStr (str ''1.0.0'')) (str ''/mirror'')
      example_mirror_stale = Some ?cp"
    using example_find by (simp add: example_basics(2))
  have dir: "os_path_isdir (dirname ?cp) example_mirror_stale"
    and free: "\<not> os_path_isdir ?out example_mirror_stale"
    by (simp_all add: os_path_isdir_def dirname_def example_mirror_stale_def str_def)
  have out: "?out = os_path_join (dirname ?cp)
      (basename ?f @ str ''-'' @ str ''1.0.0'' @ str ''.metadata.json'')"
    by (simp add: os_path_join_def dirname_def basename_def str_def)
  have named: "basename ?f \<notin> set [str ''.git'', str ''config.json'']"
    by (simp add: basename_def str_def)
  have once: "count_list (snd (snd (organize_metadata example_runtime (str ''/index'') example_index
                   (str ''/mirror'') example_mirror_stale False))) (Written ?out) = 1"
    by (simp add: example_stale_run)
  note run = sidecar_after_run[OF example_basics(1,5) named example_basics(6)
      example_filter(1-3) example_loads(1) example_vers example_basics(4) fnd dir out
      example_basics(7) free]
  from run once show ?thesis by (simp add: organize_metadata_def Let_def)
qed

theorem rerun_rewrites_sidecars_witness:
  "fst (organize_metadata example_runtime (str ''/index'') example_index (str ''/mirror'')
          example_mirror_written False) = (1, 1)
   \<and> Written (str ''/mirror'', [str ''F'', str ''FM-FP'', str ''foo-1.0.0.metadata.json''])
       \<in> set (snd (snd (organize_metadata example_runtime (str ''/index'') example_index
                          (str ''/mirror'') example_mirror_written False)))
   \<and> (\<exists>m. read_at [str ''F'', str ''FM-FP'', str ''foo-1.0.0.metadata.json'']
              (fst (snd (organize_metadata example_runtime (str ''/index'') example_index
                           (str ''/mirror'') example_mirror_written False)))
            = Some (Some (JsonDump m 2)))
   \<and> (\<exists>c'. read_at [str ''F'', str ''FM-FP'', str ''foo-1.0.0.crate'']
              (fst (snd (organize_metadata example_runtime (str ''/index'') example_index
                           (str ''/mirror'') example_mirror_written False)))
            = Some (Some c'))"
proof -
  have r: "read_at [str ''F'', str ''FM-FP'', str ''foo-1.0.0.crate''] example_mirror
      = Some (Some Blob)"
    by (simp add: read_at_def example_mirror_def str_def)
  from rerun_rewrites_sidecars[of example_runtime "str ''/index''" example_index "str ''/mirror''"
      example_mirror "(str ''/mirror'', [str ''F'', str ''FM-FP'', str ''foo-1.0.0.metadata.json''])"
      "[str ''F'', str ''FM-FP'', str ''foo-1.0.0.crate'']" Blob] r
  show ?thesis by (simp add: Let_def example_run)
qed

text \<open>Claim C9 as stated fails. On a mirror whose sidecar for \<^verbatim>\<open>foo\<close> 1.0.0 holds an older
  dump, the run replaces the content by the record of the index; and the run on the
  mirror that a first run left, in which the sidecar exists, writes that sidecar
  again.\<close>

theorem sidecar_written_once_counterexample:
  "read_at [str ''F'', str ''FM-FP'', str ''foo-1.0.0.metadata.json''] example_mirror_stale
     = Some (Some (JsonDump (JObj []) 2))
   \<and> read_at [str ''F'', str ''FM-FP'', str ''foo-1.0.0.metadata.json'']
        (fst (snd (organize_metadata example_runtime (str ''/index'') example_index
                     (str ''/mirror'') example_mirror_stale False)))
     = Some (Some (JsonDump example_record 2))
   \<and> fst (snd (organize_metadata example_runtime (str ''/index'') example_index
                 (str ''/mirror'') example_mirror False)) = example_mirror_written
   \<and> Written (str ''/mirror'', [str ''F'', str ''FM-FP'', str ''foo-1.0.0.metadata.json''])
       \<in> set (snd (snd (organize_metadata example_runtime (str ''/index'') example_index
                          (str ''/mirror'') example_mirror_written False)))"
proof -
  have "read_at [str ''F'', str ''FM-FP'', str ''foo-1.0.0.metadata.json''] example_mirror_stale
     = Some (Some (JsonDump (JObj []) 2))"
    by (simp add: read_at_def example_mirror_stale_def str_def)
  then show ?thesis
    by (simp add: example_stale_refreshed example_run example_rerun)
qed

section \<open>Properties of the file relocator: hard links\<close>

lemma read_at_file_iff: "read_at q t = Some (Some j) \<longleftrightarrow> lookup q t = Some (File j)"
proof (cases "lookup q t")
  case None
  then show ?thesis by (simp add: read_at_def)
next
  case (Some node)
  then show ?thesis by (cases node) (simp_all add: read_at_def)
qed

lemma same_file_read_at:
  assumes "snd src \<noteq> snd dst"
  shows "same_file src dst t
     \<longleftrightarrow> (\<exists>j. read_at (snd src) t = Some (Some j) \<and> read_at (snd dst) t = Some (Some j))"
proof (cases "lookup (snd src) t")
  case None
  then show ?thesis by (simp add: same_file_def read_at_file_iff)
next
  case (Some node)
  with assms show ?thesis by (cases node) (simp_all add: same_file_def read_at_file_iff)
qed

lemma read_at_delete:
  "read_at (a # r) (Dir (AList.delete f es))
     = (if a = f then None else read_at (a # r) (Dir es))"
  by (simp add: read_at_def delete_conv')

lemma read_at_below_file:
  "lookup ns t = Some (File i) \<Longrightarrow> r \<noteq> [] \<Longrightarrow> read_at (ns @ r) t = None"
proof (induction ns arbitrary: t)
  case Nil
  then show ?case by (cases r) (simp_all add: read_at_def)
next
  case (Cons n ns)
  then obtain es c where t: "t = Dir es" "map_of es n = Some c" "lookup ns c = Some (File i)"
    by (auto split: fsnode.splits option.splits)
  from Cons.IH[OF t(3) Cons.prems(2)] t(1,2) show ?case by (simp add: read_at_def)
qed

lemma modify_append_read_at:
  assumes "modify ns (\<lambda>es. Inr (es @ [(n, Dir [])])) t = Inr t'" and "lookup (ns @ [n]) t = None"
  shows "read_at q t' = (if q = ns @ [n] then Some None else read_at q t)"
  using assms
proof (induction ns arbitrary: t t' q)
  case Nil
  then obtain es where t: "t = Dir es" and t': "t' = Dir (es @ [(n, Dir [])])"
    by (auto split: fsnode.splits)
  from Nil.prems(2) t have new: "map_of es n = None" by (auto split: option.splits)
  show ?case
  proof (cases q)
    case Nil
    with t t' show ?thesis by (simp add: read_at_def)
  next
    case (Cons k ks)
    show ?thesis
    proof (cases "k = n")
      case True
      with new t t' Cons show ?thesis
        by (cases ks) (simp_all add: read_at_def map_of_append_new del: map_of_append)
    next
      case False
      with new t t' Cons show ?thesis
        by (simp add: read_at_def map_of_append_new del: map_of_append)
    qed
  qed
next
  case (Cons a ns)
  from modify_Dir[OF Cons.prems(1)] obtain es where t: "t = Dir es" by blast
  from modify_Cons[OF Cons.prems(1)[unfolded t]] obtain c0 c1 where
    c: "map_of es a = Some (Dir c0)"
    and m: "modify ns (\<lambda>es. Inr (es @ [(n, Dir [])])) (Dir c0) = Inr (Dir c1)"
    and t': "t' = Dir (AList.update a (Dir c1) es)" by blast
  from Cons.prems(2) t c have new: "lookup (ns @ [n]) (Dir c0) = None" by simp
  note ih = Cons.IH[OF m new]
  show ?case
  proof (cases q)
    case Nil
    with t t' show ?thesis by (simp add: read_at_def)
  next
    case q: (Cons k ks)
    show ?thesis
    proof (cases "k = a")
      case True
      have "read_at q t' = read_at ks (Dir c1)"
        using q True t' by (simp add: read_at_def update_conv')
      moreover have "read_at q t = read_at ks (Dir c0)"
        using q True t c by (simp add: read_at_def)
      ultimately show ?thesis using ih[of ks] q True by simp
    next
      case False
      with t t' q show ?thesis by (simp add: read_at_def update_conv')
    qed
  qed
qed

lemma ensure_dir_files:
  assumes "ensure_dir permits (b, n # ns) t = Inr t'"
  shows "read_at q t' = Some (Some j) \<longleftrightarrow> read_at q t = Some (Some j)"
proof (cases "os_path_exists (b, n # ns) t")
  case True
  with assms show ?thesis by (simp add: ensure_dir_def)
next
  case False
  with assms have m: "modify (butlast (n # ns)) (\<lambda>es. Inr (es @ [(last (n # ns), Dir [])])) t = Inr t'"
    by (simp add: ensure_dir_def os_makedirs_def dirname_def basename_def split: if_splits)
  from False have "lookup (butlast (n # ns) @ [last (n # ns)]) t = None"
    by (simp only: append_butlast_last_id list.distinct not_False_eq_True)
       (simp add: os_path_exists_def del: lookup.simps)
  then have none: "read_at (butlast (n # ns) @ [last (n # ns)]) t = None"
    by (simp add: read_at_def)
  from modify_append_read_at[OF m \<open>lookup (butlast (n # ns) @ [last (n # ns)]) t = None\<close>, of q]
  show ?thesis
  proof (cases "q = butlast (n # ns) @ [last (n # ns)]")
    case True
    with none modify_append_read_at[OF m \<open>lookup (butlast (n # ns) @ [last (n # ns)]) t = None\<close>, of q]
    show ?thesis by simp
  next
    case False
    with modify_append_read_at[OF m \<open>lookup (butlast (n # ns) @ [last (n # ns)]) t = None\<close>, of q]
    show ?thesis by simp
  qed
qed

lemma create_directories_files:
  assumes "create_directories permits base_dir t = Inr t'"
  shows "read_at q t' = Some (Some j) \<longleftrightarrow> read_at q t = Some (Some j)"
proof (rule for_each_invariant[where
      P="\<lambda>u. read_at q u = Some (Some j) \<longleftrightarrow> read_at q t = Some (Some j)",
      OF assms[unfolded create_directories_def]])
  show "read_at q t = Some (Some j) \<longleftrightarrow> read_at q t = Some (Some j)" by simp
next
  fix first_level u u'
  assume P: "read_at q u = Some (Some j) \<longleftrightarrow> read_at q t = Some (Some j)"
    and body: "(let first_dir = os_path_join (base_dir, []) first_level
          in case ensure_dir permits first_dir u of
               Inl e \<Rightarrow> Inl e
             | Inr t' \<Rightarrow>
                 (case dict_get get_letter_groups first_level of
                    Inl e \<Rightarrow> Inl e
                  | Inr groups \<Rightarrow>
                      for_each (\<lambda>g. ensure_dir permits (os_path_join first_dir (fst g))) groups t')) = Inr u'"
  from create_directories_body[OF body] obtain u1 and groups :: "group list" where
    e1: "ensure_dir permits (base_dir, [first_level]) u = Inr u1"
    and inner: "for_each (\<lambda>g. ensure_dir permits (base_dir, [first_level, fst g])) groups u1 = Inr u'"
    by blast
  from ensure_dir_files[OF e1, of q j] P
  have P1: "read_at q u1 = Some (Some j) \<longleftrightarrow> read_at q t = Some (Some j)" by simp
  show "read_at q u' = Some (Some j) \<longleftrightarrow> read_at q t = Some (Some j)"
  proof (rule for_each_invariant[where
        P="\<lambda>u. read_at q u = Some (Some j) \<longleftrightarrow> read_at q t = Some (Some j)", OF inner P1])
    fix g v v'
    assume "read_at q v = Some (Some j) \<longleftrightarrow> read_at q t = Some (Some j)"
      and "ensure_dir permits (base_dir, [first_level, fst g]) v = Inr v'"
    then show "read_at q v' = Some (Some j) \<longleftrightarrow> read_at q t = Some (Some j)"
      using ensure_dir_files[of permits base_dir first_level "[fst g]" v v' q j] by simp
  qed
qed

lemma rename_moved_list_files:
  assumes m1: "modify (x # butlast (k # ks)) (\<lambda>es. Inr (AList.update (last (k # ks)) node es)) t = Inr t1"
    and m2: "modify [] (\<lambda>es. Inr (AList.delete f es)) t1 = Inr t'"
    and lf: "list_files b0 t = Inr fs"
  shows "list_files b0 t' = Inr (removeAll f fs)"
proof -
  from modify_below_list_files[OF m1] lf have l1: "list_files b0 t1 = Inr fs" by simp
  from m2 obtain es1 where t1: "t1 = Dir es1" and t': "t' = Dir (AList.delete f es1)"
    by (auto split: fsnode.splits)
  from l1 t1 have "filter (\<lambda>f. case map_of es1 f of Some (File _) \<Rightarrow> True | _ \<Rightarrow> False) (map fst es1) = fs"
    by (simp add: list_files_Dir)
  with t' show ?thesis by (simp only: list_files_delete)
qed

lemma rename_moved_frame:
  assumes src: "lookup [f] t = Some (File i)"
    and m1: "modify (x # butlast (k # ks)) (\<lambda>es. Inr (AList.update (last (k # ks)) (File i) es)) t = Inr t1"
    and m2: "modify [] (\<lambda>es. Inr (AList.delete f es)) t1 = Inr t'"
    and nd: "case lookup (x # k # ks) t of Some (Dir _) \<Rightarrow> False | _ \<Rightarrow> True"
    and name: "last (k # ks) = f"
  shows "read_at [f] t' = None"
    and "g \<noteq> f \<Longrightarrow> read_at [g] t' = read_at [g] t"
    and "g \<noteq> f \<Longrightarrow> read_at [x', y', g] t' = read_at [x', y', g] t"
proof -
  have dst: "(x # butlast (k # ks)) @ [last (k # ks)] = x # k # ks"
    by (simp only: append_Cons append_butlast_last_id list.distinct not_False_eq_True)
  from nd have nd': "case lookup ((x # butlast (k # ks)) @ [last (k # ks)]) t of
      Some (Dir _) \<Rightarrow> False | _ \<Rightarrow> True"
    unfolding dst .
  have r1: "read_at q t1 = (if q = x # k # ks then Some (Some i) else read_at q t)" for q
    using modify_update_read_at[OF m1 nd', of q] unfolding dst .
  from m2 obtain es1 where t1: "t1 = Dir es1" and t': "t' = Dir (AList.delete f es1)"
    by (auto split: fsnode.splits)
  have r2: "read_at (a # r) t' = (if a = f then None else read_at (a # r) t1)" for a r
    unfolding t' t1 by (rule read_at_delete)
  show "read_at [f] t' = None" using r2[of f "[]"] by simp
  show "read_at [g] t' = read_at [g] t" if "g \<noteq> f"
    using that r2[of g "[]"] r1[of "[g]"] by simp
  show "read_at [x', y', g] t' = read_at [x', y', g] t" if "g \<noteq> f"
  proof (cases "x' = f")
    case True
    from read_at_below_file[OF src, of "[y', g]"] have "read_at [f, y', g] t = None" by simp
    with True r2[of x' "[y', g]"] show ?thesis by simp
  next
    case False
    have "[x', y', g] \<noteq> x # k # ks"
    proof
      assume "[x', y', g] = x # k # ks"
      then have "last (k # ks) = g" by auto
      with name that show False by simp
    qed
    with r1[of "[x', y', g]"] have "read_at [x', y', g] t1 = read_at [x', y', g] t"
      by (simp only: if_False)
    moreover from False r2[of x' "[y', g]"] have "read_at [x', y', g] t' = read_at [x', y', g] t1"
      by (simp only: if_False)
    ultimately show ?thesis by simp
  qed
qed

lemma move_file_effect:
  assumes mv: "move_file permits ((b, [f]), (b', [x, y])) t = (True, t')"
    and src: "lookup [f] t = Some (File i)"
    and lf: "list_files b0 t = Inr fs"
  shows "if same_file (b, [f]) (b', [x, y, f]) t then t' = t
         else list_files b0 t' = Inr (removeAll f fs) \<and> read_at [f] t' = None
            \<and> (\<forall>g. g \<noteq> f \<longrightarrow> read_at [g] t' = read_at [g] t
                  \<and> (\<forall>x' y'. read_at [x', y', g] t' = read_at [x', y', g] t))"
proof -
  from mv have sm: "shutil_move permits (b, [f]) (b', [x, y, f]) t = Inr t'"
    by (auto simp: move_file_def Let_def basename_def os_path_join_def split: sum.splits)
  show ?thesis
  proof (cases "same_file (b, [f]) (b', [x, y, f]) t")
    case True
    with src have "\<not> os_path_isdir (b', [x, y, f]) t"
      by (simp add: same_file_def os_path_isdir_def)
    with sm have "rename (b, [f]) (b', [x, y, f]) t = Inr t'"
      by (simp add: shutil_move_def split: if_splits)
    with True src have "t' = t"
      by (simp add: rename_def del: lookup.simps)
    with True show ?thesis by simp
  next
    case False
    have "\<exists>k ks t1. last (k # ks) = f
        \<and> (case lookup (x # k # ks) t of Some (Dir _) \<Rightarrow> False | _ \<Rightarrow> True)
        \<and> modify (x # butlast (k # ks)) (\<lambda>es. Inr (AList.update (last (k # ks)) (File i) es)) t = Inr t1
        \<and> modify [] (\<lambda>es. Inr (AList.delete f es)) t1 = Inr t'"
    proof (cases "os_path_isdir (b', [x, y, f]) t")
      case True
      with sm False have ne: "\<not> os_path_exists (b', [x, y, f, f]) t"
        and r: "rename (b, [f]) (b', [x, y, f, f]) t = Inr t'"
        by (auto simp: shutil_move_def Let_def basename_def os_path_join_def split: if_splits)
      from ne have none: "lookup [x, y, f, f] t = None"
        by (simp add: os_path_exists_def del: lookup.simps)
      with src have "\<not> same_file (b, [f]) (b', [x, y, f, f]) t"
        by (simp add: same_file_def del: lookup.simps)
      with r src obtain t1 where
        "modify [x, y, f] (\<lambda>es. Inr (AList.update f (File i) es)) t = Inr t1"
        "modify [] (\<lambda>es. Inr (AList.delete f es)) t1 = Inr t'"
        by (auto simp: rename_def dirname_def basename_def
            simp del: lookup.simps modify.simps split: sum.splits)
      with none show ?thesis
        by (intro exI[of _ y] exI[of _ "[f, f]"] exI[of _ t1]) (simp del: lookup.simps modify.simps)
    next
      case nd: False
      with sm have r: "rename (b, [f]) (b', [x, y, f]) t = Inr t'"
        by (auto simp: shutil_move_def split: if_splits)
      with False src obtain t1 where
        "modify [x, y] (\<lambda>es. Inr (AList.update f (File i) es)) t = Inr t1"
        "modify [] (\<lambda>es. Inr (AList.delete f es)) t1 = Inr t'"
        by (auto simp: rename_def dirname_def basename_def
            simp del: lookup.simps modify.simps split: sum.splits)
      moreover from nd have "case lookup [x, y, f] t of Some (Dir _) \<Rightarrow> False | _ \<Rightarrow> True"
        by (auto simp: os_path_isdir_def simp del: lookup.simps split: option.splits fsnode.splits)
      ultimately show ?thesis
        by (intro exI[of _ y] exI[of _ "[f]"] exI[of _ t1]) (simp del: lookup.simps modify.simps)
    qed
    then obtain k ks t1 where name: "last (k # ks) = f"
      and nd: "case lookup (x # k # ks) t of Some (Dir _) \<Rightarrow> False | _ \<Rightarrow> True"
      and m1: "modify (x # butlast (k # ks)) (\<lambda>es. Inr (AList.update (last (k # ks)) (File i) es)) t = Inr t1"
      and m2: "modify [] (\<lambda>es. Inr (AList.delete f es)) t1 = Inr t'"
      by blast
    note frame = rename_moved_frame[OF src m1 m2 nd name]
    from rename_moved_list_files[OF m1 m2 lf] frame False show ?thesis by simp
  qed
qed

lemma move_file_succeeds_source:
  assumes "move_file permits ((b, [f]), d) t = (True, t')"
  shows "lookup [f] t \<noteq> None"
proof
  assume "lookup [f] t = None"
  then have "rename (b, [f]) dst t = Inl OSError" for dst
    by (simp add: rename_def del: lookup.simps)
  then have "\<exists>e. shutil_move permits (b, [f]) dst t = Inl e" for dst
    by (simp add: shutil_move_def Let_def)
  then obtain e where
    "shutil_move permits (b, [f]) (os_path_join d (basename (b, [f]))) t = Inl e" by blast
  with assms show False by (simp add: move_file_def Let_def)
qed

lemma all_true_Cons: "\<forall>r \<in> set (ok # rs). r \<Longrightarrow> ok \<and> (\<forall>r \<in> set rs. r)"
  by (metis list.set_intros(1) list.set_intros(2))

lemma move_all_leftover:
  fixes target :: "pystr \<Rightarrow> path"
  assumes "\<forall>f \<in> set names. \<exists>x y. target f = (b', [x, y])"
    and "list_files b0 u = Inr fs"
    and "\<forall>f \<in> set names. \<forall>es. lookup [f] u \<noteq> Some (Dir es)"
    and "\<forall>r \<in> set (fst (move_all permits (map (\<lambda>f. ((b, [f]), target f)) names) u)). r"
  shows "list_files b0 (snd (move_all permits (map (\<lambda>f. ((b, [f]), target f)) names) u))
           = Inr (filter (\<lambda>g. g \<in> set names \<longrightarrow> same_file (b, [g]) (os_path_join (target g) g) u) fs)"
  using assms
proof (induction names arbitrary: u fs)
  case Nil
  then show ?case by simp
next
  case (Cons f names)
  let ?args = "map (\<lambda>f. ((b, [f]), target f)) names"
  from Cons.prems(1) obtain x y where tf: "target f = (b', [x, y])" by auto
  obtain ok u1 where m: "move_file permits ((b, [f]), target f) u = (ok, u1)"
    by (cases "move_file permits ((b, [f]), target f) u")
  have r: "move_all permits (map (\<lambda>f. ((b, [f]), target f)) (f # names)) u
      = (ok # fst (move_all permits ?args u1), snd (move_all permits ?args u1))"
    using m by (simp add: Let_def)
  from Cons.prems(4) have both: "ok \<and> (\<forall>r \<in> set (fst (move_all permits ?args u1)). r)"
    unfolding r fst_conv by (rule all_true_Cons)
  from both have ok: ok by (rule conjunct1)
  from both have rest: "\<forall>r \<in> set (fst (move_all permits ?args u1)). r" by (rule conjunct2)
  from m ok have m': "move_file permits ((b, [f]), (b', [x, y])) u = (True, u1)"
    by (simp add: tf)
  from move_file_succeeds_source[OF m'] obtain node where node: "lookup [f] u = Some node"
    by (cases "lookup [f] u") (simp_all del: lookup.simps)
  from Cons.prems(3) node have "\<forall>es. node \<noteq> Dir es" by (simp del: lookup.simps)
  with node obtain i where src: "lookup [f] u = Some (File i)"
    by (cases node) (simp_all del: lookup.simps)
  have tg: "os_path_join (target g) g = (b', [x', y', g])" if "target g = (b', [x', y'])" for g x' y'
    using that by (simp add: os_path_join_def)
  note eff = move_file_effect[OF m' src Cons.prems(2)]
  from Cons.prems(1) have shape: "\<forall>f \<in> set names. \<exists>x y. target f = (b', [x, y])" by simp
  show ?case
  proof (cases "same_file (b, [f]) (b', [x, y, f]) u")
    case True
    with eff have u1: "u1 = u" by simp
    from Cons.prems(3) have nd: "\<forall>f \<in> set names. \<forall>es. lookup [f] u \<noteq> Some (Dir es)" by simp
    from Cons.IH[OF shape Cons.prems(2) nd rest[unfolded u1]]
    have "list_files b0 (snd (move_all permits ?args u))
        = Inr (filter (\<lambda>g. g \<in> set names \<longrightarrow> same_file (b, [g]) (os_path_join (target g) g) u) fs)" .
    moreover have "filter (\<lambda>g. g \<in> set names \<longrightarrow> same_file (b, [g]) (os_path_join (target g) g) u) fs
        = filter (\<lambda>g. g \<in> set (f # names) \<longrightarrow> same_file (b, [g]) (os_path_join (target g) g) u) fs"
      using True by (intro filter_cong) (auto simp: tg[OF tf])
    ultimately show ?thesis unfolding r snd_conv u1 by simp
  next
    case False
    with eff have l1: "list_files b0 u1 = Inr (removeAll f fs)"
      and gone: "read_at [f] u1 = None"
      and top: "\<And>g. g \<noteq> f \<Longrightarrow> read_at [g] u1 = read_at [g] u"
      and below: "\<And>g x' y'. g \<noteq> f \<Longrightarrow> read_at [x', y', g] u1 = read_at [x', y', g] u"
      by simp_all
    have nd1: "\<forall>g \<in> set names. \<forall>es. lookup [g] u1 \<noteq> Some (Dir es)"
    proof (intro ballI allI)
      fix g es assume g: "g \<in> set names"
      show "lookup [g] u1 \<noteq> Some (Dir es)"
      proof (cases "g = f")
        case True
        with gone show ?thesis by (auto simp: read_at_def simp del: lookup.simps)
      next
        case ne: False
        from Cons.prems(3) g have "\<forall>es. lookup [g] u \<noteq> Some (Dir es)" by simp
        then have "read_at [g] u \<noteq> Some None"
          by (auto simp: read_at_def simp del: lookup.simps split: fsnode.splits)
        with top[OF ne] have "read_at [g] u1 \<noteq> Some None" by simp
        then show ?thesis by (auto simp: read_at_def simp del: lookup.simps)
      qed
    qed
    have same: "same_file (b, [g]) (os_path_join (target g) g) u1
        \<longleftrightarrow> same_file (b, [g]) (os_path_join (target g) g) u"
      if "g \<in> set names" "g \<noteq> f" for g
    proof -
      from shape that(1) obtain x' y' where t: "target g = (b', [x', y'])" by blast
      have "snd (b, [g]) \<noteq> snd (b', [x', y', g])" by simp
      from same_file_read_at[OF this] top[OF that(2)] below[OF that(2), of x' y']
      show ?thesis unfolding tg[OF t] by simp
    qed
    from Cons.IH[OF shape l1 nd1 rest]
    have "list_files b0 (snd (move_all permits ?args u1))
        = Inr (filter (\<lambda>g. g \<in> set names \<longrightarrow> same_file (b, [g]) (os_path_join (target g) g) u1)
                 (removeAll f fs))" .
    moreover have "filter (\<lambda>g. g \<in> set names \<longrightarrow> same_file (b, [g]) (os_path_join (target g) g) u1)
                 (removeAll f fs)
        = filter (\<lambda>g. g \<in> set (f # names) \<longrightarrow> same_file (b, [g]) (os_path_join (target g) g) u) fs"
    proof -
      have "removeAll f fs = filter (\<lambda>g. g \<noteq> f) fs" by (induction fs) auto
      then have "filter (\<lambda>g. g \<in> set names \<longrightarrow> same_file (b, [g]) (os_path_join (target g) g) u1)
                 (removeAll f fs)
          = filter (\<lambda>g. g \<noteq> f \<and> (g \<in> set names \<longrightarrow> same_file (b, [g]) (os_path_join (target g) g) u1)) fs"
        by (simp add: conj_commute)
      also have "\<dots> = filter (\<lambda>g. g \<in> set (f # names) \<longrightarrow> same_file (b, [g]) (os_path_join (target g) g) u) fs"
      proof (rule filter_cong[OF refl])
        fix g assume "g \<in> set fs"
        show "(g \<noteq> f \<and> (g \<in> set names \<longrightarrow> same_file (b, [g]) (os_path_join (target g) g) u1))
            = (g \<in> set (f # names) \<longrightarrow> same_file (b, [g]) (os_path_join (target g) g) u)"
        proof (cases "g = f")
          case True
          with False show ?thesis by (simp add: tg[OF tf])
        next
          case ne: False
          then show ?thesis using same[of g] by auto
        qed
      qed
      finally show ?thesis .
    qed
    ultimately show ?thesis unfolding r snd_conv by simp
  qed
qed

lemma move_arguments_map:
  assumes "move_arguments source_dir files = Inr args"
  shows "args = map (\<lambda>f. ((source_dir, [f]),
            (case get_target_directory f source_dir of Inr d \<Rightarrow> d | Inl e \<Rightarrow> (source_dir, [])))) files
     \<and> (\<forall>f \<in> set files. \<exists>x y. get_target_directory f source_dir = Inr (source_dir, [x, y]))"
  using assms
proof (induction files arbitrary: args)
  case Nil
  then show ?case by simp
next
  case (Cons f files)
  from Cons.prems obtain d rest where d: "get_target_directory f source_dir = Inr d"
    and r: "move_arguments source_dir files = Inr rest"
    and a: "args = ((source_dir, [f]), d) # rest"
    by (auto simp: os_path_join_def split: sum.splits)
  from target_shape[OF d] obtain x y where "d = (source_dir, [x, y])" by blast
  with Cons.IH[OF r] a d show ?case by simp
qed

lemma list_files_are_files:
  assumes "list_files b t = Inr fs" and "f \<in> set fs"
  shows "\<exists>i. lookup [f] t = Some (File i)"
proof -
  from list_files_root[OF assms(1)] obtain es where t: "t = Dir es" by blast
  from assms t have "case map_of es f of Some (File _) \<Rightarrow> True | _ \<Rightarrow> False"
    by (auto simp: list_files_Dir)
  then obtain a where "map_of es f = Some (File a)"
    by (cases "map_of es f") (auto split: fsnode.splits)
  with t show ?thesis by simp
qed

lemma linked_to_target_files:
  assumes "\<And>q j. read_at q t' = Some (Some j) \<longleftrightarrow> read_at q t = Some (Some j)"
  shows "linked_to_target source_dir t' f = linked_to_target source_dir t f"
proof (cases "get_target_directory f source_dir")
  case (Inl e)
  then show ?thesis by (simp add: linked_to_target_def)
next
  case (Inr d)
  from target_shape[OF Inr] obtain x y where d: "d = (source_dir, [x, y])" by blast
  have "snd (source_dir, [f]) \<noteq> snd (source_dir, [x, y, f])" by simp
  from same_file_read_at[OF this] assms show ?thesis
    by (simp add: linked_to_target_def Inr d os_path_join_def)
qed

text \<open>
  Claim C5, as amended. Whenever the relocator returns, its result is a pair of a
  success count and a total with the success count at most the total, and the total is
  the number of file entries directly in the base directory when it was listed. If every
  move succeeded (the counts are equal), the files left at the top level of the
  resulting tree are exactly those of which the destination path held a hard link
  before the run: moving such a file does nothing and counts as a success. When there
  is no such file, no file is left at the top level, and a second run on that tree,
  whatever the operating system then permits, returns (0, 0) and leaves the tree as it
  is. (After a dry first run, which creates no directories, this is stated for a dry
  second run.)
\<close>

theorem organize_files_counts_leftover:
  assumes "organize_files permits source_dir dry_run t = Inr ((moved, total_files), t')"
  shows "moved \<le> total_files
     \<and> (\<exists>files. list_files source_dir t = Inr files \<and> total_files = length files
          \<and> (moved = total_files \<longrightarrow>
               list_files source_dir t' = Inr (filter (linked_to_target source_dir t) files)
               \<and> (filter (linked_to_target source_dir t) files = [] \<and> (\<not> dry_run \<or> dry_run') \<longrightarrow>
                    organize_files permits' source_dir dry_run' t' = Inr ((0, 0), t'))))"
proof -
  from assms obtain files t1 args where
    lf: "list_files source_dir t = Inr files"
    and n: "total_files = length files"
    and t1: "if dry_run then t1 = t else create_directories permits source_dir t = Inr t1"
    and args: "move_arguments source_dir files = Inr args"
    and res: "if dry_run then moved = 0 \<and> t' = t1
     else moved = length (filter id (fst (move_all permits args t1)))
        \<and> t' = snd (move_all permits args t1)"
    by (rule organize_files_cases)
  from move_arguments_shape[OF args] have
    len: "length args = length files"
    and shape: "\<forall>a \<in> set args. \<exists>f x y. f \<in> set files \<and> a = ((source_dir, [f]), (source_dir, [x, y]))"
    by simp_all
  define target where "target = (\<lambda>f. case get_target_directory f source_dir of
      Inr d \<Rightarrow> d | Inl e \<Rightarrow> (source_dir, []))"
  from move_arguments_map[OF args] have
    amap: "args = map (\<lambda>f. ((source_dir, [f]), target f)) files"
    and tshape: "\<forall>f \<in> set files. \<exists>x y. get_target_directory f source_dir = Inr (source_dir, [x, y])"
    by (simp_all add: target_def)
  have "moved \<le> total_files
      \<and> (moved = total_files \<longrightarrow>
               list_files source_dir t' = Inr (filter (linked_to_target source_dir t) files)
               \<and> (filter (linked_to_target source_dir t) files = [] \<and> (\<not> dry_run \<or> dry_run') \<longrightarrow>
                    organize_files permits' source_dir dry_run' t' = Inr ((0, 0), t')))"
  proof (cases dry_run)
    case True
    with res t1 have s: "moved = 0" and t': "t' = t" by simp_all
    have "list_files source_dir t' = Inr (filter (linked_to_target source_dir t) files)
          \<and> (filter (linked_to_target source_dir t) files = [] \<and> (\<not> dry_run \<or> dry_run') \<longrightarrow>
               organize_files permits' source_dir dry_run' t' = Inr ((0, 0), t'))"
      if "moved = total_files"
    proof -
      from that s n have e: "files = []" by simp
      with lf t' have l: "list_files source_dir t' = Inr []" by simp
      with True e show ?thesis using organize_files_no_files[OF l] by auto
    qed
    with s show ?thesis by simp
  next
    case False
    let ?r = "move_all permits args t1"
    from False res t1 have s: "moved = length (filter id (fst ?r))" and t': "t' = snd ?r"
      and cd: "create_directories permits source_dir t = Inr t1" by simp_all
    have le: "moved \<le> total_files"
      unfolding s n len[symmetric] move_all_length[of permits args t1, symmetric]
      by (rule length_filter_le)
    from create_directories_list_files[OF cd] lf have lf1: "list_files source_dir t1 = Inr files"
      by simp
    have prov1: "provisioned t1" using cd by (rule create_directories_provisioned)
    from shape provisioned_files_not_first_level[OF prov1 lf1]
    have shape'': "\<forall>a \<in> set args. \<exists>f x y. f \<notin> set first_levels
        \<and> a = ((source_dir, [f]), (source_dir, [x, y]))"
      by blast
    have prov: "provisioned t'"
      unfolding t' using shape'' prov1 by (rule move_all_provisioned)
    have ts: "\<forall>f \<in> set files. \<exists>x y. target f = (source_dir, [x, y])"
      using tshape by (auto simp: target_def)
    have nd: "\<forall>f \<in> set files. \<forall>es. lookup [f] t1 \<noteq> Some (Dir es)"
    proof (intro ballI allI)
      fix f es assume "f \<in> set files"
      from list_files_are_files[OF lf1 this] obtain i where "lookup [f] t1 = Some (File i)"
        by blast
      then show "lookup [f] t1 \<noteq> Some (Dir es)" by (simp del: lookup.simps)
    qed
    have linked: "same_file (source_dir, [g]) (os_path_join (target g) g) t1
        = linked_to_target source_dir t g" if "g \<in> set files" for g
    proof -
      from tshape that obtain x y where "get_target_directory g source_dir = Inr (source_dir, [x, y])"
        by blast
      then have "same_file (source_dir, [g]) (os_path_join (target g) g) t1
          = linked_to_target source_dir t1 g"
        by (simp add: linked_to_target_def target_def os_path_join_def)
      also have "\<dots> = linked_to_target source_dir t g"
        by (rule linked_to_target_files) (rule create_directories_files[OF cd])
      finally show ?thesis .
    qed
    have "list_files source_dir t' = Inr (filter (linked_to_target source_dir t) files)
          \<and> (filter (linked_to_target source_dir t) files = [] \<and> (\<not> dry_run \<or> dry_run') \<longrightarrow>
               organize_files permits' source_dir dry_run' t' = Inr ((0, 0), t'))"
      if "moved = total_files"
    proof -
      from that s n len have "length (filter id (fst ?r)) = length (fst ?r)"
        by (simp add: move_all_length)
      then have all: "\<forall>r \<in> set (fst ?r). r" by (rule filter_id_all)
      from move_all_leftover[OF ts lf1 nd all[unfolded amap]]
      have "list_files source_dir t'
          = Inr (filter (\<lambda>g. g \<in> set files \<longrightarrow>
                   same_file (source_dir, [g]) (os_path_join (target g) g) t1) files)"
        unfolding t' amap .
      also have "filter (\<lambda>g. g \<in> set files \<longrightarrow>
                   same_file (source_dir, [g]) (os_path_join (target g) g) t1) files
          = filter (linked_to_target source_dir t) files"
        by (rule filter_cong[OF refl]) (simp add: linked)
      finally have l: "list_files source_dir t' = Inr (filter (linked_to_target source_dir t) files)" .
      have "organize_files permits' source_dir dry_run' t' = Inr ((0, 0), t')"
        if "filter (linked_to_target source_dir t) files = []"
        using organize_files_no_files[of source_dir t' dry_run' permits'] l that prov by simp
      with l show ?thesis by blast
    qed
    with le show ?thesis by simp
  qed
  with lf n show ?thesis by blast
qed

theorem organize_files_counts_leftover_witness:
  "\<exists>t'. organize_files (\<lambda>_. True) (str ''/mirror'') False
            (bucket_tree [(str ''serde-1.0.0.crate'', File 0)]) = Inr ((1, 1), t')
     \<and> list_files (str ''/mirror'') t' = Inr []
     \<and> organize_files (\<lambda>_. False) (str ''/mirror'') False t' = Inr ((0, 0), t')"
proof -
  let ?f = "str ''serde-1.0.0.crate''" and ?b = "str ''/mirror''"
  let ?t = "bucket_tree [(?f, File 0)] :: inode fsnode"
  have nf: "?f \<notin> set first_levels"
    by (simp add: first_levels_def ascii_uppercase_eq str_def)
  have lf: "list_files ?b ?t = Inr [?f]" using nf by (rule bucket_tree_list_files)
  have cd: "create_directories (\<lambda>_. True) ?b ?t = Inr ?t"
    using bucket_tree_provisioned by (rule provisioned_create_directories)
  have target: "get_target_directory ?f ?b = Inr (?b, [[83], str ''SE-SH''])"
    by (simp add: get_target_directory_def str_upper_def str_def ascii_uppercase_eq
      dict_get_def get_letter_groups_letter groups_for_eq Let_def)
  have S: "[83] \<in> set first_levels"
    and G: "get_letter_groups [83] = Some (groups_for 83)"
    by (simp_all add: first_levels_def ascii_uppercase_eq get_letter_groups_letter)
  have dst: "lookup [[83], str ''SE-SH'', ?f] ?t = None"
    and dir: "lookup [[83], str ''SE-SH''] ?t = Some (Dir [])"
    unfolding bucket_tree_lookup[OF S G] by (simp_all add: groups_for_eq str_def)
  have src: "lookup [?f] ?t = Some (File 0)"
    using nf by (simp add: bucket_tree_def map_of_keyed del: map_of_append)
  have nsf: "\<not> same_file (?b, [?f]) (?b, [[83], str ''SE-SH'', ?f]) ?t"
    using src dst by (simp add: same_file_def del: lookup.simps)
  from modify_succeeds[OF dir] obtain t1 where
    m1: "modify [[83], str ''SE-SH''] (\<lambda>es. Inr (AList.update ?f (File 0) es)) ?t = Inr t1"
    by blast
  from modify_Dir[OF m1] obtain es1 where t1: "t1 = Dir es1" by blast
  have mv: "shutil_move (\<lambda>_. True) (?b, [?f]) (?b, [[83], str ''SE-SH'', ?f]) ?t
              = Inr (Dir (AList.delete ?f es1))"
    using dst src m1 t1 nsf
    by (simp add: shutil_move_def os_path_isdir_def rename_def dirname_def basename_def
        del: lookup.simps modify.simps)
       (simp)
  have run: "organize_files (\<lambda>_. True) ?b False ?t = Inr ((1, 1), Dir (AList.delete ?f es1))"
    using lf cd target mv
    by (simp add: organize_files_def Let_def move_file_def os_path_join_def basename_def)
  have none: "filter (linked_to_target ?b ?t) [?f] = []"
    using nsf by (simp add: linked_to_target_def target os_path_join_def)
  from organize_files_counts_leftover[OF run, of False "\<lambda>_. False"] lf none run show ?thesis
    by auto
qed

lemma map_of_named_by:
  "g \<in> set gs \<Longrightarrow> map_of (map (\<lambda>g. (fst g, h (fst g))) gs) (fst g) = Some (h (fst g))"
  by (induction gs) auto

lemma example_linked_lookup:
  assumes "first \<in> set first_levels" and "get_letter_groups first = Some groups"
  shows "lookup (first # ns) example_linked
           = lookup ns (Dir (map (\<lambda>g. (fst g,
                 Dir (if fst g = str ''SE-SH'' then [(str ''serde-1.0.0.crate'', File 7)] else [])))
               groups))"
  using assms by (simp add: example_linked_def map_of_keyed del: map_of_append)

lemma example_linked_provisioned: "provisioned example_linked"
  unfolding provisioned_def
proof (intro ballI allI impI)
  fix first groups g
  assume a: "first \<in> set first_levels" "get_letter_groups first = Some groups" "g \<in> set groups"
  have "map_of (map (\<lambda>g. (fst g,
          Dir (if fst g = str ''SE-SH'' then [(str ''serde-1.0.0.crate'', File (7 :: inode))] else [])))
          groups)
        (fst g) \<noteq> None"
    using map_of_named_by[OF a(3), where h="\<lambda>n. Dir (if n = str ''SE-SH''
        then [(str ''serde-1.0.0.crate'', File (7 :: inode))] else [])"]
    by simp
  then show "lookup [first, fst g] example_linked \<noteq> None"
    unfolding example_linked_lookup[OF a(1,2)] by (auto split: option.splits)
qed

lemma example_linked_list_files:
  "list_files b example_linked = Inr [str ''serde-1.0.0.crate'']"
proof -
  have nf: "str ''serde-1.0.0.crate'' \<notin> set first_levels"
    by (simp add: first_levels_def ascii_uppercase_eq str_def)
  have "filter (\<lambda>k. case map_of (map (\<lambda>k. (k, Dir (h k))) ks @ [(f, File a)]) k of
                       Some (File _) \<Rightarrow> True | _ \<Rightarrow> False) ks = []"
    for h and ks :: "pystr list" and f and a :: inode
    by (auto simp: map_of_keyed filter_empty_conv simp del: map_of_append)
  then show ?thesis using nf
    by (simp add: example_linked_def list_files_Dir map_of_keyed comp_def del: map_of_append)
qed

lemma example_linked_entries:
  "lookup [str ''serde-1.0.0.crate''] example_linked = Some (File 7)"
  "lookup [[83], str ''SE-SH'', str ''serde-1.0.0.crate''] example_linked = Some (File 7)"
proof -
  have nf: "str ''serde-1.0.0.crate'' \<notin> set first_levels"
    by (simp add: first_levels_def ascii_uppercase_eq str_def)
  then show "lookup [str ''serde-1.0.0.crate''] example_linked = Some (File 7)"
    by (simp add: example_linked_def map_of_keyed del: map_of_append)
  have S: "[83] \<in> set first_levels"
    and G: "get_letter_groups [83] = Some (groups_for 83)"
    by (simp_all add: first_levels_def ascii_uppercase_eq get_letter_groups_letter)
  show "lookup [[83], str ''SE-SH'', str ''serde-1.0.0.crate''] example_linked = Some (File 7)"
    unfolding example_linked_lookup[OF S G] by (simp add: groups_for_eq str_def)
qed

text \<open>Claim C5 as stated fails for a top-level file that is a hard link of the entry at
  its destination: the run reports one success of one file and leaves the tree as it
  was, with the file at the top level, so that a second run returns (1, 1) again and
  not (0, 0).\<close>

theorem organize_files_hard_link_counterexample:
  "organize_files (\<lambda>_. True) (str ''/mirror'') False example_linked = Inr ((1, 1), example_linked)
   \<and> list_files (str ''/mirror'') example_linked = Inr [str ''serde-1.0.0.crate'']
   \<and> lookup [str ''serde-1.0.0.crate''] example_linked = Some (File 7)
   \<and> lookup [[83], str ''SE-SH'', str ''serde-1.0.0.crate''] example_linked = Some (File 7)"
proof -
  let ?f = "str ''serde-1.0.0.crate''" and ?b = "str ''/mirror''"
  have cd: "create_directories (\<lambda>_. True) ?b example_linked = Inr example_linked"
    using example_linked_provisioned by (rule provisioned_create_directories)
  have target: "get_target_directory ?f ?b = Inr (?b, [[83], str ''SE-SH''])"
    by (simp add: get_target_directory_def str_upper_def str_def ascii_uppercase_eq
      dict_get_def get_letter_groups_letter groups_for_eq Let_def)
  have sf: "same_file (?b, [?f]) (?b, [[83], str ''SE-SH'', ?f]) example_linked"
    by (simp add: same_file_def example_linked_entries del: lookup.simps)
  have mv: "shutil_move (\<lambda>_. True) (?b, [?f]) (?b, [[83], str ''SE-SH'', ?f]) example_linked
              = Inr example_linked"
    using sf
    by (simp add: shutil_move_def os_path_isdir_def rename_def example_linked_entries
        del: lookup.simps)
  have "organize_files (\<lambda>_. True) ?b False example_linked = Inr ((1, 1), example_linked)"
    using cd target mv
    by (simp add: organize_files_def example_linked_list_files Let_def move_file_def
        os_path_join_def basename_def)
  then show ?thesis by (simp add: example_linked_list_files example_linked_entries del: lookup.simps)
qed

end
